theory Spec2Isabelle
  imports Complex_Main "HOL-Library.Multiset"
begin

section \<open>Python values, errors and strings\<close>

text \<open>
  The exceptions the program can raise, under their Python names. The program has no exception
  class of its own: the two checks of \<open>__init__\<close> and the empty-catalog check raise
  \<open>ValueError\<close> (the design document calls this kind of failure a configuration error).
\<close>

datatype error =
    TypeError
  | KeyError string
  | ValueError string
  | ZeroDivisionError
  | FileNotFoundError string
  | NotADirectoryError string
  | OSError string
  | UnidentifiedImageError string
  | IndexError
  | OverflowError

text \<open>
  A value of the song-information dictionary: a string, or (for the key \<open>Singers Images\<close>)
  a list of strings. The dictionary keeps insertion order, so it is an association list.
\<close>

datatype pyval = Str string | StrList "string list"

type_synonym song_dict = "(string \<times> pyval) list"

text \<open>\<open>s.startswith(p)\<close> and \<open>s.endswith(p)\<close>.\<close>

definition startswith :: "string \<Rightarrow> string \<Rightarrow> bool" where
  "startswith s p = (take (length p) s = p)"

definition endswith :: "string \<Rightarrow> string \<Rightarrow> bool" where
  "endswith s p = (length p \<le> length s \<and> drop (length s - length p) s = p)"

text \<open>
  \<open>str.lower\<close> on the ASCII letters; every other byte is kept. (A character outside ASCII
  never lowers to one of the letters of the five extensions below, so the suffix test agrees
  with Python's on every file name.)
\<close>

definition lower_char :: "char \<Rightarrow> char" where
  "lower_char c =
     (let n = (of_char c :: nat) in if 65 \<le> n \<and> n \<le> 90 then char_of (n + 32) else c)"

definition lower :: "string \<Rightarrow> string" where
  "lower s = map lower_char s"

text \<open>\<open>sub in s\<close> for strings.\<close>

fun contains :: "string \<Rightarrow> string \<Rightarrow> bool" where
  "contains [] sub = (sub = [])"
| "contains (c # cs) sub = (startswith (c # cs) sub \<or> contains cs sub)"

text \<open>\<open>os.path.join(a, b)\<close> of \<open>posixpath\<close>, for two components.\<close>

definition join :: "string \<Rightarrow> string \<Rightarrow> string" where
  "join a b =
     (if startswith b ''/'' then b
      else if a = [] \<or> endswith a ''/'' then a @ b
      else a @ ''/'' @ b)"

text \<open>
  The value of \<open>f'{v}'\<close>: a string is inserted as it is, a list as its \<open>repr\<close> (written here
  for strings that need no escaping).
\<close>

fun commas :: "string list \<Rightarrow> string" where
  "commas [] = []"
| "commas [x] = x"
| "commas (x # y # ys) = x @ '', '' @ commas (y # ys)"

fun fstr :: "pyval \<Rightarrow> string" where
  "fstr (Str s) = s"
| "fstr (StrList xs) = ''['' @ commas (map (\<lambda>x. [CHR 0x27] @ x @ [CHR 0x27]) xs) @ '']''"

section \<open>Floating-point numbers\<close>

text \<open>
  A Python float is an IEEE 754 double: a finite value, given here by the real number it
  stands for, an infinity (\<open>Infinity True\<close> is \<open>inf\<close>, \<open>Infinity False\<close> is \<open>-inf\<close>) or
  \<open>nan\<close>. The durations the program is given are finite floats and are passed as their real
  values.
\<close>

datatype pyfloat = Finite real | Infinity bool | NaN

text \<open>The power of two with an integer exponent.\<close>

definition pow2 :: "int \<Rightarrow> real" where
  "pow2 e = (if 0 \<le> e then 2 ^ nat e else 1 / 2 ^ nat (- e))"

text \<open>The nearest integer, a tie going to the even one.\<close>

definition round_even :: "real \<Rightarrow> int" where
  "round_even y =
     (let f = \<lfloor>y\<rfloor>; r = y - of_int f
      in if r < 1 / 2 then f else if 1 / 2 < r then f + 1 else if even f then f else f + 1)"

text \<open>
  The exponent \<open>e\<close> of the double nearest to \<open>a > 0\<close>, which is a multiple of \<open>2 ^ e\<close>:
  \<open>a / 2 ^ e\<close> lies in \<open>[2 ^ 52, 2 ^ 53)\<close>, or below it with \<open>e = -1074\<close> for a subnormal.
  It is found by halving or doubling.
\<close>

function scale_up :: "real \<Rightarrow> int \<Rightarrow> int" where
  "scale_up a e = (if 2 ^ 53 \<le> a then scale_up (a / 2) (e + 1) else e)"
  by pat_completeness auto
termination
proof (relation "measure (\<lambda>(a, e). nat \<lfloor>a\<rfloor>)")
  show "wf (measure (\<lambda>(a, e). nat \<lfloor>a\<rfloor>))" by simp
next
  fix a :: real and e :: int
  assume a: "2 ^ 53 \<le> a"
  then have a1: "2 \<le> a" by simp
  then have "a / 2 + 1 \<le> a" by simp
  then have "\<lfloor>a / 2\<rfloor> + 1 \<le> \<lfloor>a\<rfloor>" by linarith
  moreover have "0 < \<lfloor>a\<rfloor>" using a1 by linarith
  ultimately show "((a / 2, e + 1), (a, e)) \<in> measure (\<lambda>(a, e). nat \<lfloor>a\<rfloor>)" by simp
qed

function scale_down :: "real \<Rightarrow> int \<Rightarrow> int" where
  "scale_down a e = (if a < 2 ^ 52 \<and> - 1074 < e then scale_down (a * 2) (e - 1) else e)"
  by pat_completeness auto
termination
  by (relation "measure (\<lambda>(a, e). nat (e + 1074))") auto

definition exponent :: "real \<Rightarrow> int" where
  "exponent a = (if 2 ^ 53 \<le> a then scale_up a 0 else scale_down a 0)"

text \<open>
  Rounding a real number to a double, to nearest with ties to even; a result of \<open>2 ^ 1024\<close>
  or more is an infinity. Every arithmetic operation on floats returns its exact result
  rounded this way.
\<close>

definition round_float :: "real \<Rightarrow> pyfloat" where
  "round_float x =
     (if x = 0 then Finite 0
      else
        (let a = \<bar>x\<bar>; e = exponent a;
             r = of_int (round_even (a / pow2 e)) * pow2 e
         in if 2 ^ 1024 \<le> r then Infinity (0 < x)
            else Finite (if 0 < x then r else - r)))"

declare scale_up.simps [simp del] scale_down.simps [simp del]

text \<open>\<open>x + y\<close> on floats.\<close>

fun fadd :: "pyfloat \<Rightarrow> pyfloat \<Rightarrow> pyfloat" where
  "fadd (Finite x) (Finite y) = round_float (x + y)"
| "fadd NaN y = NaN"
| "fadd x NaN = NaN"
| "fadd (Infinity s) (Finite y) = Infinity s"
| "fadd (Finite x) (Infinity s) = Infinity s"
| "fadd (Infinity s) (Infinity t) = (if s = t then Infinity s else NaN)"

text \<open>\<open>x < y\<close> on floats; a comparison with \<open>nan\<close> is false.\<close>

fun fless :: "pyfloat \<Rightarrow> pyfloat \<Rightarrow> bool" where
  "fless (Finite x) (Finite y) = (x < y)"
| "fless NaN y = False"
| "fless x NaN = False"
| "fless (Infinity s) (Finite y) = (\<not> s)"
| "fless (Finite x) (Infinity s) = s"
| "fless (Infinity s) (Infinity t) = (\<not> s \<and> t)"

text \<open>\<open>x / y\<close> and \<open>x * y\<close> for finite floats \<open>x\<close> and \<open>y\<close>.\<close>

definition fdiv :: "real \<Rightarrow> real \<Rightarrow> error + pyfloat" where
  "fdiv x y = (if y = 0 then Inl ZeroDivisionError else Inr (round_float (x / y)))"

definition fmul :: "real \<Rightarrow> real \<Rightarrow> pyfloat" where
  "fmul x y = round_float (x * y)"

text \<open>
  \<open>a / b\<close> for integers (true division: the exact quotient, rounded once) and \<open>float(a)\<close>;
  both raise when the result is too large for a float.
\<close>

definition true_divide :: "int \<Rightarrow> int \<Rightarrow> error + real" where
  "true_divide a b =
     (if b = 0 then Inl ZeroDivisionError
      else (case round_float (real_of_int a / real_of_int b) of
              Finite q \<Rightarrow> Inr q
            | _ \<Rightarrow> Inl OverflowError))"

definition float_of_int :: "int \<Rightarrow> error + real" where
  "float_of_int a =
     (case round_float (real_of_int a) of
        Finite x \<Rightarrow> Inr x
      | _ \<Rightarrow> Inl OverflowError)"

text \<open>\<open>math.ceil(x)\<close> and \<open>int(x)\<close> of a float.\<close>

definition math_ceil :: "pyfloat \<Rightarrow> error + int" where
  "math_ceil x =
     (case x of
        Finite q \<Rightarrow> Inr \<lceil>q\<rceil>
      | Infinity s \<Rightarrow> Inl OverflowError
      | NaN \<Rightarrow> Inl (ValueError ''cannot convert float NaN to integer''))"

definition py_int :: "real \<Rightarrow> int" where
  "py_int x = (if 0 \<le> x then \<lfloor>x\<rfloor> else \<lceil>x\<rceil>)"

definition int_of_float :: "pyfloat \<Rightarrow> error + int" where
  "int_of_float x =
     (case x of
        Finite q \<Rightarrow> Inr (py_int q)
      | Infinity s \<Rightarrow> Inl OverflowError
      | NaN \<Rightarrow> Inl (ValueError ''cannot convert float NaN to integer''))"

section \<open>The file system\<close>

datatype node = File | Dir "string list"

type_synonym filesystem = "string \<Rightarrow> node option"

definition path_exists :: "filesystem \<Rightarrow> string \<Rightarrow> bool" where
  "path_exists fs p = (fs p \<noteq> None)"

definition listdir :: "filesystem \<Rightarrow> string \<Rightarrow> error + string list" where
  "listdir fs p =
     (case fs p of
        None \<Rightarrow> Inl (FileNotFoundError p)
      | Some File \<Rightarrow> Inl (NotADirectoryError p)
      | Some (Dir names) \<Rightarrow> Inr names)"

section \<open>The generator object\<close>

record generator =
  images_dir :: string
  music_path :: string
  output_path :: string
  frame_path :: string
  video_path :: string
  width :: nat
  height :: nat
  footer_height :: nat
  song_info :: song_dict

definition default_song_info :: song_dict where
  "default_song_info =
     [(''Song'', Str ''Unknown Title''),
      (''Film'', Str ''Unknown Album''),
      (''Singers (Original)'', Str ''Unknown Artists''),
      (''Singers (Karaoke)'', Str ''Unknown Singer'')]"

text \<open>\<open>song_info['Song'] + suffix\<close>, where \<open>song_info\<close> may be \<open>None\<close>.\<close>

definition song_plus :: "song_dict option \<Rightarrow> string \<Rightarrow> error + string" where
  "song_plus si suffix =
     (case si of
        None \<Rightarrow> Inl TypeError
      | Some d \<Rightarrow>
          (case map_of d ''Song'' of
             None \<Rightarrow> Inl (KeyError ''Song'')
           | Some (StrList _) \<Rightarrow> Inl TypeError
           | Some (Str song) \<Rightarrow> Inr (song @ suffix)))"

text \<open>\<open>song_info or {...}\<close>: \<open>None\<close> and the empty dictionary are falsy.\<close>

definition or_default :: "song_dict option \<Rightarrow> song_dict" where
  "or_default si =
     (case si of None \<Rightarrow> default_song_info
      | Some d \<Rightarrow> if d = [] then default_song_info else d)"

text \<open>\<open>SlideShowGenerator.__init__\<close>, statement by statement.\<close>

definition init ::
  "filesystem \<Rightarrow> string \<Rightarrow> string \<Rightarrow> string \<Rightarrow> song_dict option \<Rightarrow> error + generator" where
  "init fs idir mpath opath si =
     (case song_plus si ''.jpg'' of
        Inl e \<Rightarrow> Inl e
      | Inr jpg \<Rightarrow>
     (case song_plus si ''.mp4'' of
        Inl e \<Rightarrow> Inl e
      | Inr mp4 \<Rightarrow>
          (let g = \<lparr> images_dir = idir, music_path = mpath, output_path = opath,
                     frame_path = join opath jpg, video_path = join opath mp4,
                     width = 1920, height = 1080, footer_height = 120,
                     song_info = or_default si \<rparr>
           in if \<not> path_exists fs idir
              then Inl (ValueError (''Image directory '' @ idir @ '' does not exist''))
              else if \<not> path_exists fs mpath
              then Inl (ValueError (''Music file '' @ mpath @ '' does not exist''))
              else Inr g)))"

section \<open>The catalog of images\<close>

definition extensions :: "string list" where
  "extensions = [''.jpg'', ''.jpeg'', ''.png'', ''.bmp'', ''.gif'']"

text \<open>\<open>f.lower().endswith(('.jpg', '.jpeg', '.png', '.bmp', '.gif'))\<close>\<close>

definition is_image_name :: "string \<Rightarrow> bool" where
  "is_image_name f = list_ex (\<lambda>e. endswith (lower f) e) extensions"

text \<open>
  Iterating over \<open>song_info['Singers Images']\<close>: the elements of a list, the characters of a
  string.
\<close>

fun iterate :: "pyval \<Rightarrow> string list" where
  "iterate (StrList ks) = ks"
| "iterate (Str s) = map (\<lambda>c. [c]) s"

text \<open>\<open>any(f.startswith(f"{img}.") for img in keys)\<close>\<close>

definition singer_match :: "string list \<Rightarrow> string \<Rightarrow> bool" where
  "singer_match keys f = list_ex (\<lambda>img. startswith f (img @ ''.'')) keys"

text \<open>
  The list comprehension of \<open>create_music_driven_slideshow\<close>. The dictionary is subscripted
  only for a name that passed the extension test (\<open>and\<close> evaluates its right side lazily), so a
  missing key raises only then.
\<close>

definition image_files :: "generator \<Rightarrow> filesystem \<Rightarrow> error + string list" where
  "image_files g fs =
     (case listdir fs (images_dir g) of
        Inl e \<Rightarrow> Inl e
      | Inr names \<Rightarrow>
          (if list_ex is_image_name names
           then (case map_of (song_info g) ''Singers Images'' of
                   None \<Rightarrow> Inl (KeyError ''Singers Images'')
                 | Some v \<Rightarrow>
                     Inr (map (join (images_dir g))
                            (filter (\<lambda>f. is_image_name f \<and> singer_match (iterate v) f) names)))
           else Inr []))"

section \<open>Images\<close>

text \<open>
  A Pillow image: its size and the pixel at each position (column, then row). Channels are
  bytes, kept as natural numbers below 256.
\<close>

record 'p image =
  im_width :: nat
  im_height :: nat
  im_data :: "nat \<Rightarrow> nat \<Rightarrow> 'p"

type_synonym rgb = "nat \<times> nat \<times> nat"
type_synonym rgba = "nat \<times> nat \<times> nat \<times> nat"

text \<open>\<open>Image.new(mode, (w, h), colour)\<close>\<close>

definition new_image :: "nat \<Rightarrow> nat \<Rightarrow> 'p \<Rightarrow> 'p image" where
  "new_image w h c = \<lparr> im_width = w, im_height = h, im_data = (\<lambda>x y. c) \<rparr>"

text \<open>Pillow clips every channel of a colour tuple to a byte.\<close>

definition clip8 :: "int \<Rightarrow> nat" where
  "clip8 v = (if v \<le> 0 then 0 else if v < 256 then nat v else 255)"

text \<open>\<open>im.putpixel((x, y), (r, g, b, a))\<close>; a position outside the image raises.\<close>

definition putpixel :: "rgba image \<Rightarrow> nat \<times> nat \<Rightarrow> int \<times> int \<times> int \<times> int \<Rightarrow> error + rgba image" where
  "putpixel im xy v =
     (case xy of (x, y) \<Rightarrow> case v of (r, g, b, a) \<Rightarrow>
        if x < im_width im \<and> y < im_height im
        then Inr (im\<lparr>im_data := (\<lambda>x' y'. if x' = x \<and> y' = y
                                          then (clip8 r, clip8 g, clip8 b, clip8 a)
                                          else im_data im x' y')\<rparr>)
        else Inl IndexError)"

text \<open>
  \<open>im.convert('L')\<close> of an RGBA image: the luma of the three colour channels
  (Pillow's \<open>(r * 19595 + g * 38470 + b * 7471 + 0x8000) >> 16\<close>); the alpha channel is
  dropped.
\<close>

definition convert_L :: "rgba image \<Rightarrow> nat image" where
  "convert_L im =
     \<lparr> im_width = im_width im, im_height = im_height im,
       im_data = (\<lambda>x y. case im_data im x y of
                    (r, g, b, a) \<Rightarrow> (r * 19595 + g * 38470 + b * 7471 + 32768) div 65536) \<rparr>"

text \<open>Whether position \<open>(x, y)\<close> lies in the box of size \<open>w\<close> by \<open>h\<close> placed at \<open>(dx, dy)\<close>.\<close>

definition in_box :: "int \<times> int \<Rightarrow> nat \<Rightarrow> nat \<Rightarrow> nat \<Rightarrow> nat \<Rightarrow> bool" where
  "in_box d w h x y =
     (case d of (dx, dy) \<Rightarrow>
        dx \<le> int x \<and> int x < dx + int w \<and> dy \<le> int y \<and> int y < dy + int h)"

text \<open>\<open>im.paste(src, (dx, dy))\<close>: the source replaces the pixels of its box.\<close>

definition paste :: "'p image \<Rightarrow> 'p image \<Rightarrow> int \<times> int \<Rightarrow> 'p image" where
  "paste im src d =
     im\<lparr>im_data := (\<lambda>x y. if in_box d (im_width src) (im_height src) x y
                           then im_data src (nat (int x - fst d)) (nat (int y - snd d))
                           else im_data im x y)\<rparr>"

text \<open>
  \<open>im.paste(colour, (dx, dy), mask=mask)\<close> for an \<open>L\<close> mask: in the box of the mask every
  channel becomes Pillow's \<open>BLEND8(mask, old, colour)\<close>, which is
  \<open>DIV255(old * (255 - mask) + colour * mask)\<close>.
\<close>

definition div255 :: "nat \<Rightarrow> nat" where
  "div255 a = (let tmp = a + 128 in (tmp div 256 + tmp) div 256)"

definition blend8 :: "nat \<Rightarrow> nat \<Rightarrow> nat \<Rightarrow> nat" where
  "blend8 m in1 in2 = div255 (in1 * (255 - m) + in2 * m)"

definition blend_rgb :: "nat \<Rightarrow> rgb \<Rightarrow> rgb \<Rightarrow> rgb" where
  "blend_rgb m old ink =
     (case old of (r, g, b) \<Rightarrow> case ink of (ir, ig, ib) \<Rightarrow>
        (blend8 m r ir, blend8 m g ig, blend8 m b ib))"

definition paste_colour :: "rgb image \<Rightarrow> rgb \<Rightarrow> int \<times> int \<Rightarrow> nat image \<Rightarrow> rgb image" where
  "paste_colour im ink d msk =
     im\<lparr>im_data := (\<lambda>x y. if in_box d (im_width msk) (im_height msk) x y
                           then blend_rgb (im_data msk (nat (int x - fst d)) (nat (int y - snd d)))
                                  (im_data im x y) ink
                           else im_data im x y)\<rparr>"

section \<open>Slides and timelines\<close>

text \<open>
  A rendered slide: its canvas, the text lines with their positions, and its duration. A
  timeline: the slides in order and the duration of the whole, a float.
\<close>

record slide =
  slide_canvas_of :: "rgb image"
  slide_texts :: "(string \<times> int \<times> int) list"
  slide_length :: real

record timeline =
  clips :: "slide list"
  duration :: pyfloat

section \<open>The outside world\<close>

text \<open>
  What \<open>subprocess.run\<close> can do with the \<open>wget\<close> command: raise because the program cannot
  be started, or return a completed process with its exit status (0 on success, another
  value when the fetch failed).
\<close>

datatype run_outcome = NotStarted | Completed nat

datatype effect = RanWget string string | SavedFrame string | WroteVideo string timeline

text \<open>
  The world the method runs in: the directory tree, the outcome of \<open>wget\<close> for a URL and an
  output file, the duration of the audio file at a path (\<open>None\<close> when it cannot be opened),
  the random source behind \<open>random.shuffle\<close> (a stream of raw draws), and the log of what has
  been run or written so far (a written video with the timeline it holds); for slide
  rendering, what \<open>Image.open\<close> gives at a path (the decoded image, or the exception it raises:
  \<open>FileNotFoundError\<close> for a missing file, \<open>UnidentifiedImageError\<close> for one that is no
  image) and the pixels the LANCZOS filter computes for a source image and a target size.
\<close>

record world =
  files :: filesystem
  wget :: "string \<Rightarrow> string \<Rightarrow> run_outcome"
  audio :: "string \<Rightarrow> real option"
  random_source :: "nat \<Rightarrow> nat"
  effects :: "effect list"
  open_image :: "string \<Rightarrow> error + rgb image"
  lanczos :: "rgb image \<Rightarrow> nat \<Rightarrow> nat \<Rightarrow> nat \<Rightarrow> nat \<Rightarrow> rgb"

text \<open>
  \<open>download_image\<close>: the command is run and its result is dropped; the exit status is never
  looked at.
\<close>

definition download_image :: "string \<Rightarrow> string \<Rightarrow> string \<Rightarrow> world \<Rightarrow> (error + unit) \<times> world" where
  "download_image url destination_folder filename w =
     (let dest = destination_folder @ ''/'' @ filename
      in case wget w url dest of
           NotStarted \<Rightarrow> (Inl (FileNotFoundError ''wget''), w)
         | Completed returncode \<Rightarrow> (Inr (), w\<lparr>effects := effects w @ [RanWget url dest]\<rparr>))"

section \<open>Shuffling\<close>

text \<open>
  \<open>random.shuffle\<close> of the standard library:
  \<^verbatim>\<open>for i in reversed(range(1, len(x))): j = randbelow(i + 1); x[i], x[j] = x[j], x[i]\<close>.
  A draw below \<open>n\<close> takes the next raw value of the source modulo \<open>n\<close>, so every outcome
  \<open>j < n\<close> is the draw of some source.
\<close>

definition randbelow :: "nat \<Rightarrow> (nat \<Rightarrow> nat) \<Rightarrow> nat \<times> (nat \<Rightarrow> nat)" where
  "randbelow n src = (src 0 mod n, \<lambda>k. src (Suc k))"

fun shuffle_from :: "nat \<Rightarrow> 'a list \<Rightarrow> (nat \<Rightarrow> nat) \<Rightarrow> 'a list \<times> (nat \<Rightarrow> nat)" where
  "shuffle_from 0 x src = (x, src)"
| "shuffle_from (Suc i) x src =
     (case randbelow (Suc i + 1) src of
        (j, src') \<Rightarrow> shuffle_from i (x[Suc i := x ! j, j := x ! Suc i]) src')"

definition shuffle :: "'a list \<Rightarrow> (nat \<Rightarrow> nat) \<Rightarrow> 'a list \<times> (nat \<Rightarrow> nat)" where
  "shuffle x src = shuffle_from (length x - 1) x src"

section \<open>The plan\<close>

text \<open>
  \<open>math.ceil(total_duration / slide_duration)\<close>: the ceiling of the float quotient, which is
  the exact quotient rounded.
\<close>

definition slides_needed :: "real \<Rightarrow> real \<Rightarrow> error + int" where
  "slides_needed total_duration slide_duration =
     (case fdiv total_duration slide_duration of
        Inl e \<Rightarrow> Inl e
      | Inr q \<Rightarrow> math_ceil q)"

text \<open>\<open>math.ceil(slides_needed / len(image_files))\<close>, a true division of two integers.\<close>

definition repeats_needed :: "int \<Rightarrow> nat \<Rightarrow> error + int" where
  "repeats_needed sn n =
     (case true_divide sn (int n) of
        Inl e \<Rightarrow> Inl e
      | Inr q \<Rightarrow> math_ceil (Finite q))"

text \<open>
  The loop \<open>for _ in range(repeats_needed)\<close>: each round shuffles a fresh copy of
  \<open>image_files\<close> and appends it.
\<close>

fun extend_loop ::
  "nat \<Rightarrow> string list \<Rightarrow> string list \<times> (nat \<Rightarrow> nat) \<Rightarrow> string list \<times> (nat \<Rightarrow> nat)" where
  "extend_loop 0 imgs st = st"
| "extend_loop (Suc n) imgs (ext, src) =
     (case shuffle imgs src of
        (shuffled_images, src') \<Rightarrow> extend_loop n imgs (ext @ shuffled_images, src'))"

text \<open>\<open>xs[:n]\<close>: a negative \<open>n\<close> counts from the end.\<close>

definition slice_to :: "'a list \<Rightarrow> int \<Rightarrow> 'a list" where
  "slice_to xs n = (if 0 \<le> n then take (nat n) xs else take (nat (int (length xs) + n)) xs)"

text \<open>
  The list that starts with the poster, is extended \<open>repeats_needed\<close> times and is cut to
  \<open>slides_needed\<close> entries; \<open>range\<close> of a negative number is empty.
\<close>

definition extended_image_list ::
  "string \<Rightarrow> string list \<Rightarrow> int \<Rightarrow> int \<Rightarrow> (nat \<Rightarrow> nat) \<Rightarrow> string list \<times> (nat \<Rightarrow> nat)" where
  "extended_image_list poster imgs sn rn src =
     (case extend_loop (nat rn) imgs ([poster], src) of
        (ext, src') \<Rightarrow> (slice_to ext sn, src'))"

definition poster_name :: "pyval \<Rightarrow> string" where
  "poster_name song = fstr song @ '' Poster.jpg''"

text \<open>
  The first part of \<open>create_music_driven_slideshow\<close>, up to the truncated
  \<open>extended_image_list\<close>: the catalog, the poster download, the audio duration and the plan.
  It returns the plan with the audio duration, and the world as the statements left it (also
  when one of them raises).
\<close>

definition sequence_plan ::
  "generator \<Rightarrow> string list \<Rightarrow> pyval \<Rightarrow> real \<Rightarrow> world \<Rightarrow> (error + string list \<times> real) \<times> world" where
  "sequence_plan g imgs song slide_duration w =
     (case audio w (music_path g) of
        None \<Rightarrow> (Inl (OSError (music_path g)), w)
      | Some total_duration \<Rightarrow>
          (case slides_needed total_duration slide_duration of
             Inl e \<Rightarrow> (Inl e, w)
           | Inr sn \<Rightarrow>
               (case repeats_needed sn (length imgs) of
                  Inl e \<Rightarrow> (Inl e, w)
                | Inr rn \<Rightarrow>
                    (case extended_image_list (join (output_path g) (poster_name song)) imgs sn rn
                            (random_source w) of
                       (plan, src') \<Rightarrow>
                         (Inr (plan, total_duration), w\<lparr>random_source := src'\<rparr>)))))"

definition plan_stage ::
  "generator \<Rightarrow> real \<Rightarrow> world \<Rightarrow> (error + string list \<times> real) \<times> world" where
  "plan_stage g slide_duration w =
     (case image_files g (files w) of
        Inl e \<Rightarrow> (Inl e, w)
      | Inr imgs \<Rightarrow>
          if imgs = []
          then (Inl (ValueError ''No image files found in the specified directory''), w)
          else
            (case map_of (song_info g) ''Poster Image'' of
               None \<Rightarrow> (Inl (KeyError ''Poster Image''), w)
             | Some (StrList _) \<Rightarrow>
                 (case map_of (song_info g) ''Song'' of
                    None \<Rightarrow> (Inl (KeyError ''Song''), w)
                  | Some _ \<Rightarrow> (Inl TypeError, w))
             | Some (Str url) \<Rightarrow>
                 (case map_of (song_info g) ''Song'' of
                    None \<Rightarrow> (Inl (KeyError ''Song''), w)
                  | Some song \<Rightarrow>
                      (case download_image url (output_path g) (poster_name song) w of
                         (Inl e, w') \<Rightarrow> (Inl e, w')
                       | (Inr _, w') \<Rightarrow> sequence_plan g imgs song slide_duration w'))))"

section \<open>Rendering one slide\<close>

text \<open>
  The resize dimensions, in the program's float arithmetic: the two ratios are true divisions
  of integers, \<open>self.width / img_ratio\<close> and \<open>self.height * img_ratio\<close> convert the integer to a
  float and round the quotient or product, and \<open>int\<close> truncates.
\<close>

definition scaled_height :: "generator \<Rightarrow> real \<Rightarrow> error + int" where
  "scaled_height g img_ratio =
     (case float_of_int (int (width g)) of
        Inl e \<Rightarrow> Inl e
      | Inr width_float \<Rightarrow>
          (case fdiv width_float img_ratio of
             Inl e \<Rightarrow> Inl e
           | Inr q \<Rightarrow> int_of_float q))"

definition scaled_width :: "generator \<Rightarrow> real \<Rightarrow> error + int" where
  "scaled_width g img_ratio =
     (case float_of_int (int (height g)) of
        Inl e \<Rightarrow> Inl e
      | Inr height_float \<Rightarrow> int_of_float (fmul height_float img_ratio))"

definition resize_dimensions :: "generator \<Rightarrow> nat \<Rightarrow> nat \<Rightarrow> error + int \<times> int" where
  "resize_dimensions g w h =
     (case true_divide (int w) (int h) of
        Inl e \<Rightarrow> Inl e
      | Inr img_ratio \<Rightarrow>
          (case true_divide (int (width g)) (int (height g)) of
             Inl e \<Rightarrow> Inl e
           | Inr target_ratio \<Rightarrow>
               if img_ratio > target_ratio
               then (case scaled_height g img_ratio of
                       Inl e \<Rightarrow> Inl e
                     | Inr new_height \<Rightarrow> Inr (int (width g), new_height))
               else (case scaled_width g img_ratio of
                       Inl e \<Rightarrow> Inl e
                     | Inr new_width \<Rightarrow> Inr (new_width, int (height g)))))"

text \<open>
  \<open>img.resize((xsize, ysize), LANCZOS)\<close>: a copy when the size does not change; Pillow rejects
  a target size with a side below 1 (\<open>height and width must be > 0\<close>).
\<close>

definition resize :: "world \<Rightarrow> rgb image \<Rightarrow> int \<times> int \<Rightarrow> error + rgb image" where
  "resize wd img sz =
     (case sz of (xsize, ysize) \<Rightarrow>
        if xsize = int (im_width img) \<and> ysize = int (im_height img) then Inr img
        else if xsize < 1 \<or> ysize < 1 then Inl (ValueError ''height and width must be > 0'')
        else Inr \<lparr> im_width = nat xsize, im_height = nat ysize,
                   im_data = lanczos wd img (nat xsize) (nat ysize) \<rparr>)"

text \<open>
  The alpha of footer row \<open>y\<close>: \<open>int((y / self.footer_height) ** 1.5 * 160)\<close>, with the power
  taken over the real numbers.
\<close>

definition alpha :: "generator \<Rightarrow> nat \<Rightarrow> int" where
  "alpha g y = py_int ((real y / real (footer_height g)) powr 1.5 * 160)"

text \<open>The inner loop \<open>for x in range(self.width)\<close> and the outer loop over the rows.\<close>

fun put_row :: "nat list \<Rightarrow> nat \<Rightarrow> int \<Rightarrow> rgba image \<Rightarrow> error + rgba image" where
  "put_row [] y a im = Inr im"
| "put_row (x # xs) y a im =
     (case putpixel im (x, y) (0, 0, 0, a) of
        Inl e \<Rightarrow> Inl e
      | Inr im' \<Rightarrow> put_row xs y a im')"

fun put_rows :: "generator \<Rightarrow> nat list \<Rightarrow> rgba image \<Rightarrow> error + rgba image" where
  "put_rows g [] im = Inr im"
| "put_rows g (y # ys) im =
     (case put_row [0..<width g] y (alpha g y) im of
        Inl e \<Rightarrow> Inl e
      | Inr im' \<Rightarrow> put_rows g ys im')"

definition footer_overlay :: "generator \<Rightarrow> error + rgba image" where
  "footer_overlay g =
     put_rows g [0..<footer_height g] (new_image (width g) (footer_height g) (0, 0, 0, 0))"

text \<open>\<open>background.paste((0, 0, 0), (0, self.height - self.footer_height), mask=footer.convert('L'))\<close>\<close>

definition paste_footer :: "generator \<Rightarrow> rgb image \<Rightarrow> rgba image \<Rightarrow> rgb image" where
  "paste_footer g background footer =
     paste_colour background (0, 0, 0) (0, int (height g) - int (footer_height g))
       (convert_L footer)"

text \<open>
  The canvas of \<open>_create_slide_with_footer\<close>: the decoded image, resized, pasted on black, with
  the footer pasted over it.
\<close>

definition paste_position :: "generator \<Rightarrow> int \<times> int \<Rightarrow> int \<times> int" where
  "paste_position g sz =
     (case sz of (new_width, new_height) \<Rightarrow>
        ((int (width g) - new_width) div 2, (int (height g) - new_height) div 2))"

definition slide_canvas :: "generator \<Rightarrow> world \<Rightarrow> rgb image \<Rightarrow> error + rgb image" where
  "slide_canvas g wd img =
     (case resize_dimensions g (im_width img) (im_height img) of
        Inl e \<Rightarrow> Inl e
      | Inr sz \<Rightarrow>
          (case resize wd img sz of
             Inl e \<Rightarrow> Inl e
           | Inr img_resized \<Rightarrow>
               (let background = new_image (width g) (height g) (0, 0, 0);
                    background = paste background img_resized (paste_position g sz)
                in case footer_overlay g of
                     Inl e \<Rightarrow> Inl e
                   | Inr footer \<Rightarrow> Inr (paste_footer g background footer))))"

text \<open>The text lines and where each is placed.\<close>

definition text_lines :: "generator \<Rightarrow> string list" where
  "text_lines g =
     map (\<lambda>(key, v). key @ '': '' @ fstr v)
       (filter (\<lambda>(key, v). \<not> contains key ''Image'') (song_info g))"

definition text_positions :: "generator \<Rightarrow> (string \<times> int \<times> int) list" where
  "text_positions g =
     map (\<lambda>(i, line). (line, 40, int (height g) - int (footer_height g) + 10 + int i * 26))
       (enumerate 0 (text_lines g))"

definition create_slide_with_footer ::
  "generator \<Rightarrow> world \<Rightarrow> string \<Rightarrow> real \<Rightarrow> error + slide" where
  "create_slide_with_footer g wd image_path slide_duration =
     (case open_image wd image_path of
        Inl e \<Rightarrow> Inl e
      | Inr img \<Rightarrow>
          (case slide_canvas g wd img of
             Inl e \<Rightarrow> Inl e
           | Inr canvas \<Rightarrow>
               Inr \<lparr> slide_canvas_of = canvas, slide_texts = text_positions g,
                     slide_length = slide_duration \<rparr>))"

section \<open>The timeline\<close>

text \<open>The list comprehension that renders every entry of the plan; the first failure ends it.\<close>

fun render_all :: "generator \<Rightarrow> world \<Rightarrow> string list \<Rightarrow> real \<Rightarrow> error + slide list" where
  "render_all g wd [] slide_duration = Inr []"
| "render_all g wd (img_path # rest) slide_duration =
     (case create_slide_with_footer g wd img_path slide_duration of
        Inl e \<Rightarrow> Inl e
      | Inr c \<Rightarrow>
          (case render_all g wd rest slide_duration of
             Inl e \<Rightarrow> Inl e
           | Inr cs \<Rightarrow> Inr (c # cs)))"

text \<open>
  The last entry of \<open>np.cumsum([0] + durations)\<close>: the durations added one after the other
  in float arithmetic, every partial sum rounded.
\<close>

definition cumsum_last :: "real list \<Rightarrow> pyfloat" where
  "cumsum_last ds = foldl fadd (Finite 0) (map Finite ds)"

text \<open>
  \<open>concatenate_videoclips(clips, method='chain')\<close>: the clips one after the other, the
  duration the last cumulative sum of theirs. MoviePy takes the maximum of the clip sizes and
  so raises on an empty list.
\<close>

definition concatenate_videoclips :: "slide list \<Rightarrow> error + timeline" where
  "concatenate_videoclips cs =
     (if cs = [] then Inl (ValueError ''max() arg is an empty sequence'')
      else Inr \<lparr> clips = cs, duration = cumsum_last (map slide_length cs) \<rparr>)"

definition with_duration :: "timeline \<Rightarrow> real \<Rightarrow> timeline" where
  "with_duration t d = t\<lparr>duration := Finite d\<rparr>"

text \<open>\<open>if final_clip.duration > total_duration: final_clip = final_clip.with_duration(...)\<close>\<close>

definition trim :: "timeline \<Rightarrow> real \<Rightarrow> timeline" where
  "trim final_clip total_duration =
     (if fless (Finite total_duration) (duration final_clip)
      then with_duration final_clip total_duration
      else final_clip)"

text \<open>The second part of \<open>create_music_driven_slideshow\<close>: rendering, assembly and output.\<close>

definition assemble ::
  "generator \<Rightarrow> string list \<Rightarrow> real \<Rightarrow> real \<Rightarrow> real \<Rightarrow> world \<Rightarrow> (error + string \<times> string) \<times> world" where
  "assemble g plan total_duration slide_duration capture_time w =
     (case render_all g w plan slide_duration of
        Inl e \<Rightarrow> (Inl e, w)
      | Inr cs \<Rightarrow>
          (case concatenate_videoclips cs of
             Inl e \<Rightarrow> (Inl e, w)
           | Inr final_clip \<Rightarrow>
               (let final_clip = trim final_clip total_duration;
                    w = (if fless (Finite capture_time) (duration final_clip)
                         then w\<lparr>effects := effects w @ [SavedFrame (frame_path g)]\<rparr> else w);
                    w = w\<lparr>effects := effects w @ [WroteVideo (video_path g) final_clip]\<rparr>
                in (Inr (video_path g, frame_path g), w))))"

definition create_music_driven_slideshow ::
  "generator \<Rightarrow> real \<Rightarrow> real \<Rightarrow> world \<Rightarrow> (error + string \<times> string) \<times> world" where
  "create_music_driven_slideshow g slide_duration capture_time w =
     (case plan_stage g slide_duration w of
        (Inl e, w') \<Rightarrow> (Inl e, w')
      | (Inr (plan, total_duration), w') \<Rightarrow>
          assemble g plan total_duration slide_duration capture_time w')"


section \<open>Auxiliary notions and a sample run\<close>

text \<open>
  The successive values of \<open>shuffled_images\<close> in the loop that extends the plan: one shuffle
  of the whole catalog per round, each drawing from the random source where the round before
  left it.
\<close>

fun passes :: "nat \<Rightarrow> string list \<Rightarrow> (nat \<Rightarrow> nat) \<Rightarrow> string list list" where
  "passes 0 imgs src = []"
| "passes (Suc n) imgs src =
     (case shuffle imgs src of (shuffled_images, src') \<Rightarrow> shuffled_images # passes n imgs src')"

text \<open>A song, a directory tree and a world to run the program in.\<close>

definition example_song :: song_dict where
  "example_song =
     [(''Song'', Str ''Tune''),
      (''Film'', Str ''Movie''),
      (''Poster Image'', Str ''http://posters/tune.jpg''),
      (''Singers Images'', StrList [''asha'', ''kishore''])]"

definition example_files :: filesystem where
  "example_files =
     [''/img'' \<mapsto> Dir [''asha.1.jpg'', ''kishore.a.PNG'', ''lata.1.jpg'', ''asha.txt'',
                         ''asha.2.jpeg'', ''kishore.b.gif''],
      ''/song.mp3'' \<mapsto> File,
      ''/out'' \<mapsto> Dir []]"

definition example_generator :: generator where
  "example_generator =
     \<lparr> images_dir = ''/img'', music_path = ''/song.mp3'', output_path = ''/out'',
       frame_path = ''/out/Tune.jpg'', video_path = ''/out/Tune.mp4'',
       width = 1920, height = 1080, footer_height = 120, song_info = example_song \<rparr>"

definition example_world :: world where
  "example_world =
     \<lparr> files = example_files,
       wget = (\<lambda>url dest. Completed 0),
       audio = (\<lambda>p. if p = ''/song.mp3'' then Some 95 else None),
       random_source = (\<lambda>k. k),
       effects = [],
       open_image = (\<lambda>p. Inr (new_image 800 600 (200, 100, 50))),
       lanczos = (\<lambda>img w h x y. (200, 100, 50)) \<rparr>"

definition failed_fetch_world :: world where
  "failed_fetch_world = example_world\<lparr>wget := (\<lambda>url dest. Completed 4)\<rparr>"

definition silent_world :: world where
  "silent_world = example_world\<lparr>audio := (\<lambda>p. Some 0)\<rparr>"

definition example_images :: "string list" where
  "example_images =
     [''/img/asha.1.jpg'', ''/img/kishore.a.PNG'', ''/img/asha.2.jpeg'', ''/img/kishore.b.gif'']"

definition no_wget_world :: world where
  "no_wget_world = example_world\<lparr>wget := (\<lambda>url dest. NotStarted)\<rparr>"

definition other_singers_files :: filesystem where
  "other_singers_files =
     [''/img'' \<mapsto> Dir [''lata.1.jpg'', ''asha.txt'', ''asha2.jpg''],
      ''/song.mp3'' \<mapsto> File,
      ''/out'' \<mapsto> Dir []]"

definition other_singers_world :: world where
  "other_singers_world = example_world\<lparr>files := other_singers_files\<rparr>"

definition thin_image :: "rgb image" where
  "thin_image = new_image 4000 1 (255, 255, 255)"

definition sample_image :: "rgb image" where
  "sample_image = new_image 800 600 (200, 100, 50)"

text \<open>
  A short song: the floats that Python reads from the literals \<open>0.45\<close> and \<open>0.15\<close>, and a
  world whose audio file lasts 0.45 seconds.
\<close>

definition float_045 :: real where
  "float_045 = 8106479329266893 / 2 ^ 54"

definition float_015 :: real where
  "float_015 = 5404319552844595 / 2 ^ 55"

definition short_song_world :: world where
  "short_song_world = example_world\<lparr>audio := (\<lambda>p. Some float_045)\<rparr>"

section \<open>Strings and the catalog\<close>

lemma startswith_iff: "startswith s p \<longleftrightarrow> (\<exists>r. s = p @ r)"
  unfolding startswith_def
  by (metis append_eq_conv_conj append_take_drop_id)

lemma endswith_iff: "endswith s p \<longleftrightarrow> (\<exists>r. s = r @ p)"
  unfolding endswith_def
  by (metis append_eq_conv_conj append_take_drop_id diff_add_inverse2 length_append le_add2 length_drop)

lemma is_image_name_iff:
  "is_image_name f \<longleftrightarrow>
     (\<exists>ext \<in> {''jpg'', ''jpeg'', ''png'', ''bmp'', ''gif''}. \<exists>stem. lower f = stem @ ''.'' @ ext)"
  by (simp add: is_image_name_def extensions_def endswith_iff)

lemma singer_match_iff:
  "singer_match keys f \<longleftrightarrow> (\<exists>k \<in> set keys. \<exists>r. f = k @ ''.'' @ r)"
  by (simp add: singer_match_def list_ex_iff startswith_iff)

lemma image_files_Dir:
  assumes "fs (images_dir g) = Some (Dir names)"
    and "map_of (song_info g) ''Singers Images'' = Some (StrList keys)"
  shows "image_files g fs =
           Inr (map (join (images_dir g)) (filter (\<lambda>f. is_image_name f \<and> singer_match keys f) names))"
proof (cases "list_ex is_image_name names")
  case True
  then show ?thesis using assms by (simp add: image_files_def listdir_def)
next
  case False
  then have "filter (\<lambda>f. is_image_name f \<and> singer_match keys f) names = []"
    by (auto simp: list_ex_iff filter_empty_conv)
  then show ?thesis using assms False by (simp add: image_files_def listdir_def)
qed

lemma plan_stage_empty:
  "image_files g (files w) = Inr [] \<Longrightarrow>
   plan_stage g S w = (Inl (ValueError ''No image files found in the specified directory''), w)"
  by (simp add: plan_stage_def)

lemma slideshow_empty:
  "image_files g (files w) = Inr [] \<Longrightarrow>
   create_music_driven_slideshow g S c w = (Inl (ValueError ''No image files found in the specified directory''), w)"
  by (simp add: create_music_driven_slideshow_def plan_stage_empty)

lemma init_missing_dir:
  assumes "\<not> path_exists fs idir" and "map_of d ''Song'' = Some (Str s)"
  shows "init fs idir mpath opath (Some d) = Inl (ValueError (''Image directory '' @ idir @ '' does not exist''))"
  using assms by (simp add: init_def song_plus_def)

lemma init_missing_dir_any:
  assumes "\<not> path_exists fs idir"
  shows "\<exists>e. init fs idir mpath opath si = Inl e"
  using assms by (auto simp: init_def Let_def split: sum.splits)

section \<open>Shuffles and the plan\<close>

lemma shuffle_from_mset:
  "i < length x \<Longrightarrow> mset (fst (shuffle_from i x src)) = mset x"
proof (induction i arbitrary: x src)
  case 0
  then show ?case by simp
next
  case (Suc i)
  obtain j src' where r: "randbelow (Suc i + 1) src = (j, src')" by force
  then have "j < Suc i + 1" by (auto simp: randbelow_def)
  then have j: "j < length x" using Suc.prems by simp
  let ?x = "x[Suc i := x ! j, j := x ! Suc i]"
  have "mset ?x = mset x" using j Suc.prems by (simp add: mset_swap)
  moreover have "mset (fst (shuffle_from i ?x src')) = mset ?x"
    using Suc.prems by (intro Suc.IH) simp
  ultimately show ?case using r by simp
qed

lemma shuffle_mset: "mset (fst (shuffle x src)) = mset x"
proof (cases x)
  case Nil
  then show ?thesis by (simp add: shuffle_def)
next
  case (Cons a as)
  then show ?thesis by (simp add: shuffle_def shuffle_from_mset)
qed

lemma shuffle_set: "set (fst (shuffle x src)) = set x"
  by (metis shuffle_mset set_mset_mset)

lemma shuffle_length: "length (fst (shuffle x src)) = length x"
  by (metis shuffle_mset size_mset)

lemma shuffle_distinct: "distinct (fst (shuffle x src)) = distinct x"
  by (metis shuffle_mset mset_eq_imp_distinct_iff)

lemma extend_loop_passes:
  "fst (extend_loop n imgs (ext, src)) = ext @ concat (passes n imgs src)"
proof (induction n arbitrary: ext src)
  case 0
  then show ?case by simp
next
  case (Suc n)
  then show ?case by (cases "shuffle imgs src") simp
qed

lemma length_passes: "length (passes n imgs src) = n"
  by (induction n arbitrary: src) (auto split: prod.splits)

lemma passes_perm: "p \<in> set (passes n imgs src) \<Longrightarrow> mset p = mset imgs"
proof (induction n arbitrary: src)
  case 0
  then show ?case by simp
next
  case (Suc n)
  obtain s src' where s: "shuffle imgs src = (s, src')" by force
  then have "mset s = mset imgs" using shuffle_mset[of imgs src] by simp
  then show ?case using Suc s by auto
qed

lemma concat_passes_length: "length (concat (passes n imgs src)) = n * length imgs"
proof (induction n arbitrary: src)
  case 0
  then show ?case by simp
next
  case (Suc n)
  obtain s src' where s: "shuffle imgs src = (s, src')" by force
  then have "length s = length imgs" using shuffle_length[of imgs src] by simp
  then show ?case using Suc s by simp
qed

lemma concat_passes_set: "set (concat (passes n imgs src)) \<subseteq> set imgs"
proof
  fix x assume "x \<in> set (concat (passes n imgs src))"
  then obtain p where p: "p \<in> set (passes n imgs src)" "x \<in> set p" by auto
  then have "set p = set imgs" using passes_perm mset_eq_setD by blast
  then show "x \<in> set imgs" using p by simp
qed

lemma example_catalog: "image_files example_generator example_files = Inr example_images"
  by code_simp

lemma example_poster: "map_of (song_info example_generator) ''Poster Image'' = Some (Str ''http://posters/tune.jpg'')"
  by code_simp

lemma example_song_name: "map_of (song_info example_generator) ''Song'' = Some (Str ''Tune'')"
  by code_simp

lemma example_images_nonempty: "example_images \<noteq> []"
  by (simp add: example_images_def)

lemma song_plus_Inr:
  "song_plus si suffix = Inr r \<Longrightarrow> \<exists>d s. si = Some d \<and> map_of d ''Song'' = Some (Str s) \<and> r = s @ suffix"
  by (auto simp: song_plus_def split: option.splits pyval.splits)

lemma init_Inr:
  assumes "init fs idir mpath opath si = Inr g"
  shows "\<exists>d s. si = Some d \<and> map_of d ''Song'' = Some (Str s) \<and> song_info g = d"
proof -
  from assms obtain jpg where j: "song_plus si ''.jpg'' = Inr jpg"
    by (auto simp: init_def split: sum.splits)
  then obtain d s where d: "si = Some d" "map_of d ''Song'' = Some (Str s)"
    using song_plus_Inr by blast
  then have "d \<noteq> []" by auto
  then have "or_default si = d" using d by (simp add: or_default_def)
  moreover have "song_info g = or_default si"
    using assms by (auto simp: init_def Let_def split: sum.splits if_splits)
  ultimately show ?thesis using d by auto
qed

lemma example_init:
  "init example_files ''/img'' ''/song.mp3'' ''/out'' (Some example_song) = Inr example_generator"
  by code_simp

section \<open>The footer gradient\<close>

lemma powr_three_halves_sq:
  assumes "0 \<le> (x::real)"
  shows "(x powr 1.5 * 160)\<^sup>2 = x ^ 3 * 25600"
proof (cases "x = 0")
  case True
  then show ?thesis by simp
next
  case False
  then have x: "0 < x" using assms by simp
  have "(x powr 1.5)\<^sup>2 = x powr 1.5 * x powr 1.5" by (simp add: power2_eq_square)
  also have "\<dots> = x powr 3" by (simp add: powr_add[symmetric])
  also have "\<dots> = x ^ 3" using x powr_realpow[of x 3] by simp
  finally show ?thesis by (simp add: power_mult_distrib)
qed

lemma alpha_sq:
  assumes "footer_height g = 120"
  shows "0 \<le> (real y / real (footer_height g)) powr 1.5 * 160"
    and "((real y / real (footer_height g)) powr 1.5 * 160)\<^sup>2 = 2 * real y ^ 3 / 135"
proof -
  show "0 \<le> (real y / real (footer_height g)) powr 1.5 * 160" by simp
  have "((real y / real (footer_height g)) powr 1.5 * 160)\<^sup>2 = (real y / 120) ^ 3 * 25600"
    using assms powr_three_halves_sq[of "real y / 120"] by simp
  also have "\<dots> = 2 * real y ^ 3 / 135" by (simp add: power_divide)
  finally show "((real y / real (footer_height g)) powr 1.5 * 160)\<^sup>2 = 2 * real y ^ 3 / 135" .
qed

lemma alpha_floor:
  "alpha g y = \<lfloor>(real y / real (footer_height g)) powr 1.5 * 160\<rfloor>"
  by (simp add: alpha_def py_int_def)

lemma floor_by_squares:
  assumes "0 \<le> (t::real)" and "0 \<le> (n::int)"
    and "(of_int n)\<^sup>2 \<le> t\<^sup>2" and "t\<^sup>2 < (of_int n + 1)\<^sup>2"
  shows "\<lfloor>t\<rfloor> = n"
proof -
  have "of_int n \<le> t"
    using assms(1,2,3) by (simp add: power2_le_iff_abs_le)
  moreover have "t < of_int n + 1"
    using assms(1,2,4) by (smt (verit) power2_le_imp_le of_int_0_le_iff power_mono)
  ultimately show ?thesis by linarith
qed

lemma alpha_value:
  assumes "footer_height g = 120" and "0 \<le> n"
    and "135 * n\<^sup>2 \<le> 2 * int y ^ 3" and "2 * int y ^ 3 < 135 * (n + 1)\<^sup>2"
  shows "alpha g y = n"
proof -
  let ?t = "(real y / real (footer_height g)) powr 1.5 * 160"
  have sq: "?t\<^sup>2 = 2 * real y ^ 3 / 135" using assms(1) by (rule alpha_sq)
  have "real_of_int (135 * n\<^sup>2) \<le> real_of_int (2 * int y ^ 3)"
    using assms(3) of_int_le_iff by blast
  then have a: "(of_int n)\<^sup>2 \<le> ?t\<^sup>2" unfolding sq by simp
  have "real_of_int (2 * int y ^ 3) < real_of_int (135 * (n + 1)\<^sup>2)"
    using assms(4) of_int_less_iff by blast
  then have b: "?t\<^sup>2 < (of_int n + 1)\<^sup>2" unfolding sq by simp
  have "0 \<le> ?t" by simp
  then have "\<lfloor>?t\<rfloor> = n" using assms(2) a b by (rule floor_by_squares)
  then show ?thesis by (simp add: alpha_floor)
qed

lemma alpha_mono: "y \<le> y' \<Longrightarrow> alpha g y \<le> alpha g y'"
proof -
  assume "y \<le> y'"
  then have "real y / real (footer_height g) \<le> real y' / real (footer_height g)"
    by (simp add: divide_right_mono)
  then have "(real y / real (footer_height g)) powr 1.5 \<le> (real y' / real (footer_height g)) powr 1.5"
    by (intro powr_mono2) simp_all
  then show ?thesis unfolding alpha_floor by (intro floor_mono) simp
qed

lemma alpha_0: "alpha g 0 = 0"
  by (simp add: alpha_floor)

lemma alpha_119: "footer_height g = 120 \<Longrightarrow> alpha g 119 = 158"
  by (rule alpha_value) simp_all

lemma alpha_60: "footer_height g = 120 \<Longrightarrow> alpha g 60 = 56"
  by (rule alpha_value) simp_all

lemma alpha_range:
  assumes "footer_height g = 120" and "y < 120"
  shows "0 \<le> alpha g y" and "alpha g y \<le> 158"
proof -
  show "0 \<le> alpha g y" using alpha_mono[of 0 y g] by (simp add: alpha_0)
  have "y \<le> 119" using assms(2) by simp
  then have "alpha g y \<le> alpha g 119" by (rule alpha_mono)
  then show "alpha g y \<le> 158" using alpha_119[OF assms(1)] by simp
qed

lemma round_60:
  assumes "footer_height g = 120"
  shows "round ((real 60 / real (footer_height g)) powr 1.5 * 160) = 57"
proof -
  let ?t = "(real 60 / real (footer_height g)) powr 1.5 * 160"
  have sq: "?t\<^sup>2 = 3200" using alpha_sq(2)[OF assms, of 60] by simp
  have t0: "0 \<le> ?t" by simp
  have "(113 / 2)\<^sup>2 \<le> ?t\<^sup>2" unfolding sq by (simp add: power2_eq_square)
  then have lo: "113 / 2 \<le> ?t" using t0 by (rule power2_le_imp_le)
  have "?t\<^sup>2 \<le> 57\<^sup>2" unfolding sq by simp
  then have hi: "?t \<le> 57" by (rule power2_le_imp_le) simp
  show ?thesis unfolding round_def using lo hi by linarith
qed

lemma put_row_ok:
  assumes "y < im_height im" and "\<forall>x \<in> set xs. x < im_width im"
  shows "\<exists>im'. put_row xs y a im = Inr im' \<and> im_width im' = im_width im \<and> im_height im' = im_height im
           \<and> (\<forall>x' y'. im_data im' x' y' =
                 (if x' \<in> set xs \<and> y' = y then (0, 0, 0, clip8 a) else im_data im x' y'))"
  using assms
proof (induction xs arbitrary: im)
  case Nil
  then show ?case by simp
next
  case (Cons x xs)
  let ?im1 = "im\<lparr>im_data := (\<lambda>x' y'. if x' = x \<and> y' = y
                                          then (clip8 0, clip8 0, clip8 0, clip8 a)
                                          else im_data im x' y')\<rparr>"
  have p: "putpixel im (x, y) (0, 0, 0, a) = Inr ?im1"
    using Cons.prems by (simp add: putpixel_def)
  have "y < im_height ?im1" and "\<forall>x \<in> set xs. x < im_width ?im1"
    using Cons.prems by simp_all
  from Cons.IH[OF this] obtain im' where
    r: "put_row xs y a ?im1 = Inr im'" "im_width im' = im_width ?im1" "im_height im' = im_height ?im1"
      "\<forall>x' y'. im_data im' x' y' =
                 (if x' \<in> set xs \<and> y' = y then (0, 0, 0, clip8 a) else im_data ?im1 x' y')"
    by blast
  have "put_row (x # xs) y a im = Inr im'" using p r(1) by simp
  moreover have "\<forall>x' y'. im_data im' x' y' =
                 (if x' \<in> set (x # xs) \<and> y' = y then (0, 0, 0, clip8 a) else im_data im x' y')"
    using r(4) by (simp add: clip8_def)
  ultimately show ?case using r(2,3) by simp
qed

lemma put_rows_ok:
  assumes "im_width im = width g" and "\<forall>y \<in> set ys. y < im_height im"
  shows "\<exists>im'. put_rows g ys im = Inr im' \<and> im_width im' = im_width im \<and> im_height im' = im_height im
           \<and> (\<forall>x' y'. im_data im' x' y' =
                 (if x' < width g \<and> y' \<in> set ys then (0, 0, 0, clip8 (alpha g y')) else im_data im x' y'))"
  using assms
proof (induction ys arbitrary: im)
  case Nil
  then show ?case by simp
next
  case (Cons y ys)
  have "y < im_height im" and "\<forall>x \<in> set [0..<width g]. x < im_width im"
    using Cons.prems by simp_all
  from put_row_ok[OF this, of "alpha g y"] obtain im1 where
    a: "put_row [0..<width g] y (alpha g y) im = Inr im1" "im_width im1 = im_width im"
      "im_height im1 = im_height im"
      "\<forall>x' y'. im_data im1 x' y' =
          (if x' \<in> set [0..<width g] \<and> y' = y then (0, 0, 0, clip8 (alpha g y)) else im_data im x' y')"
    by blast
  have "im_width im1 = width g" and "\<forall>y \<in> set ys. y < im_height im1"
    using Cons.prems a(2,3) by simp_all
  from Cons.IH[OF this] obtain im' where
    b: "put_rows g ys im1 = Inr im'" "im_width im' = im_width im1" "im_height im' = im_height im1"
      "\<forall>x' y'. im_data im' x' y' =
          (if x' < width g \<and> y' \<in> set ys then (0, 0, 0, clip8 (alpha g y')) else im_data im1 x' y')"
    by blast
  have "put_rows g (y # ys) im = Inr im'" using a(1) b(1) by simp
  moreover have "\<forall>x' y'. im_data im' x' y' =
          (if x' < width g \<and> y' \<in> set (y # ys) then (0, 0, 0, clip8 (alpha g y')) else im_data im x' y')"
    using a(4) b(4) by auto
  ultimately show ?case using a(2,3) b(2,3) by simp
qed

lemma footer_overlay_ok:
  "\<exists>footer. footer_overlay g = Inr footer \<and> im_width footer = width g
      \<and> im_height footer = footer_height g
      \<and> (\<forall>x y. im_data footer x y =
            (if x < width g \<and> y < footer_height g then (0, 0, 0, clip8 (alpha g y)) else (0, 0, 0, 0)))"
proof -
  let ?im = "new_image (width g) (footer_height g) (0, 0, 0, 0) :: rgba image"
  have d: "im_data ?im = (\<lambda>x y. (0, 0, 0, 0))" and w: "im_width ?im = width g"
    and h: "im_height ?im = footer_height g"
    by (simp_all add: new_image_def)
  have "\<forall>y \<in> set [0..<footer_height g]. y < im_height ?im" using h by simp
  from put_rows_ok[OF w this] obtain im' where
    r: "put_rows g [0..<footer_height g] ?im = Inr im'" "im_width im' = im_width ?im"
      "im_height im' = im_height ?im"
      "\<forall>x' y'. im_data im' x' y' =
          (if x' < width g \<and> y' \<in> set [0..<footer_height g]
           then (0, 0, 0, clip8 (alpha g y')) else im_data ?im x' y')"
    by blast
  have "\<forall>x y. im_data im' x y =
            (if x < width g \<and> y < footer_height g then (0, 0, 0, clip8 (alpha g y)) else (0, 0, 0, 0))"
    using r(4) unfolding d by simp
  then have "footer_overlay g = Inr im' \<and> im_width im' = width g
      \<and> im_height im' = footer_height g
      \<and> (\<forall>x y. im_data im' x y =
            (if x < width g \<and> y < footer_height g then (0, 0, 0, clip8 (alpha g y)) else (0, 0, 0, 0)))"
    using r(1,2,3) w h unfolding footer_overlay_def by simp
  then show ?thesis by (rule exI)
qed

lemma example_footer_height: "footer_height example_generator = 120"
  by (simp add: example_generator_def)

lemma clip8_alpha:
  assumes "footer_height g = 120" and "y < 120"
  shows "clip8 (alpha g y) = nat (alpha g y)"
  using alpha_range[OF assms] by (simp add: clip8_def)

section \<open>Pasting and rendering\<close>

lemma div255_le:
  assumes "a \<le> 255 * c"
  shows "div255 a \<le> c"
proof -
  have "(a + 128) div 256 \<le> c" using assms by simp
  then have "(a + 128) div 256 + (a + 128) < 256 * (c + 1)" using assms by simp
  then have "((a + 128) div 256 + (a + 128)) div 256 < c + 1"
    by (simp add: less_mult_imp_div_less mult.commute)
  then show ?thesis by (simp add: div255_def Let_def)
qed

lemma blend8_black_le: "blend8 m c 0 \<le> c"
  unfolding blend8_def by (rule div255_le) simp

lemma in_box_row:
  assumes "in_box (dx, dy) w h x y"
  shows "dy \<le> int y"
  using assms by (simp add: in_box_def)

lemma paste_footer_above:
  assumes "int y < int (height g) - int (footer_height g)"
  shows "im_data (paste_footer g background footer) x y = im_data background x y"
proof -
  have "\<not> in_box (0, int (height g) - int (footer_height g)) (im_width (convert_L footer))
             (im_height (convert_L footer)) x y"
    using assms in_box_row by fastforce
  then show ?thesis by (simp add: paste_footer_def paste_colour_def)
qed

lemma paste_footer_size:
  "im_width (paste_footer g background footer) = im_width background"
  "im_height (paste_footer g background footer) = im_height background"
  by (simp_all add: paste_footer_def paste_colour_def)

lemma paste_footer_darkens:
  "case im_data (paste_footer g background footer) x y of (r, gr, b) \<Rightarrow>
     case im_data background x y of (r0, g0, b0) \<Rightarrow> r \<le> r0 \<and> gr \<le> g0 \<and> b \<le> b0"
  by (simp add: paste_footer_def paste_colour_def blend_rgb_def blend8_black_le split: prod.splits)

lemma slide_canvas_Inr:
  assumes "slide_canvas g wd img = Inr canvas"
  shows "\<exists>sz img_resized footer.
           resize_dimensions g (im_width img) (im_height img) = Inr sz
           \<and> resize wd img sz = Inr img_resized
           \<and> footer_overlay g = Inr footer
           \<and> canvas = paste_footer g
                (paste (new_image (width g) (height g) (0, 0, 0)) img_resized (paste_position g sz)) footer"
  using assms by (auto simp: slide_canvas_def Let_def split: sum.splits)

section \<open>Float arithmetic\<close>

lemma pow2_powi: "pow2 e = 2 powi e"
  by (simp add: pow2_def power_int_def inverse_eq_divide power_one_over)

lemma pow2_pos: "0 < pow2 e"
  by (simp add: pow2_powi)

lemma pow2_add: "pow2 (e1 + e2) = pow2 e1 * pow2 e2"
  by (simp add: pow2_powi power_int_add)

lemma pow2_minus: "pow2 (- e) = 1 / pow2 e"
  by (simp add: pow2_powi power_int_minus inverse_eq_divide)

lemma pow2_0: "pow2 0 = 1" and pow2_1: "pow2 1 = 2" and pow2_m1: "pow2 (- 1) = 1 / 2"
  by (simp_all add: pow2_def)

lemma pow2_mono: "e1 \<le> e2 \<Longrightarrow> pow2 e1 \<le> pow2 e2"
  by (simp add: pow2_powi power_int_increasing)

lemma scale_down_spec:
  "0 < b \<Longrightarrow> - 1074 \<le> e \<Longrightarrow> b < 2 ^ 53 \<Longrightarrow>
     - 1074 \<le> scale_down b e \<and> b * pow2 (e - scale_down b e) < 2 ^ 53
     \<and> (2 ^ 52 \<le> b * pow2 (e - scale_down b e) \<or> scale_down b e = - 1074)"
proof (induction b e rule: scale_down.induct)
  case (1 a e)
  show ?case
  proof (cases "a < 2 ^ 52 \<and> - 1074 < e")
    case True
    have s: "scale_down a e = scale_down (a * 2) (e - 1)"
      by (subst scale_down.simps) (simp only: True simp_thms if_True)
    have "0 < a * 2" and "- 1074 \<le> e - 1" and "a * 2 < 2 ^ 53"
      using True "1.prems" by simp_all
    from "1.IH"[OF True this] have ih:
      "- 1074 \<le> scale_down (a * 2) (e - 1)"
      "a * 2 * pow2 (e - 1 - scale_down (a * 2) (e - 1)) < 2 ^ 53"
      "2 ^ 52 \<le> a * 2 * pow2 (e - 1 - scale_down (a * 2) (e - 1)) \<or> scale_down (a * 2) (e - 1) = - 1074"
      by simp_all
    have "e - scale_down (a * 2) (e - 1) = 1 + (e - 1 - scale_down (a * 2) (e - 1))"
      by simp
    then have "pow2 (e - scale_down (a * 2) (e - 1)) = 2 * pow2 (e - 1 - scale_down (a * 2) (e - 1))"
      by (simp only: pow2_add pow2_1)
    then have eq: "a * pow2 (e - scale_down (a * 2) (e - 1)) = a * 2 * pow2 (e - 1 - scale_down (a * 2) (e - 1))"
      by (simp only: mult.assoc)
    show ?thesis unfolding s eq using ih by blast
  next
    case False
    have s: "scale_down a e = e" by (subst scale_down.simps) (simp only: False simp_thms if_False)
    show ?thesis using False "1.prems" s by (auto simp: pow2_0)
  qed
qed

lemma scale_up_spec:
  "0 < b \<Longrightarrow>
     e \<le> scale_up b e \<and> b * pow2 (e - scale_up b e) < 2 ^ 53
     \<and> (2 ^ 53 \<le> b \<longrightarrow> 2 ^ 52 \<le> b * pow2 (e - scale_up b e))"
proof (induction b e rule: scale_up.induct)
  case (1 a e)
  show ?case
  proof (cases "2 ^ 53 \<le> a")
    case True
    have s: "scale_up a e = scale_up (a / 2) (e + 1)"
      by (subst scale_up.simps) (simp only: True simp_thms if_True)
    have "0 < a / 2" using "1.prems" by simp
    from "1.IH"[OF True this] have ih:
      "e + 1 \<le> scale_up (a / 2) (e + 1)"
      "a / 2 * pow2 (e + 1 - scale_up (a / 2) (e + 1)) < 2 ^ 53"
      "2 ^ 53 \<le> a / 2 \<longrightarrow> 2 ^ 52 \<le> a / 2 * pow2 (e + 1 - scale_up (a / 2) (e + 1))"
      by simp_all
    have "e - scale_up (a / 2) (e + 1) = - 1 + (e + 1 - scale_up (a / 2) (e + 1))"
      by simp
    then have "pow2 (e - scale_up (a / 2) (e + 1)) = 1 / 2 * pow2 (e + 1 - scale_up (a / 2) (e + 1))"
      by (simp only: pow2_add pow2_m1)
    then have eq: "a * pow2 (e - scale_up (a / 2) (e + 1)) = a / 2 * pow2 (e + 1 - scale_up (a / 2) (e + 1))"
      by simp
    have "2 ^ 52 \<le> a / 2 * pow2 (e + 1 - scale_up (a / 2) (e + 1))"
    proof (cases "2 ^ 53 \<le> a / 2")
      case True
      then show ?thesis using ih(3) by simp
    next
      case False
      have "scale_up (a / 2) (e + 1) = e + 1" by (subst scale_up.simps) (simp only: False simp_thms if_False)
      then show ?thesis using True by (simp add: pow2_0)
    qed
    moreover have "e \<le> scale_up (a / 2) (e + 1)" using ih(1) by linarith
    ultimately show ?thesis unfolding s eq using ih(2) by blast
  next
    case False
    have s: "scale_up a e = e" by (subst scale_up.simps) (simp only: False simp_thms if_False)
    show ?thesis using False s by (simp add: pow2_0)
  qed
qed

lemma exponent_spec:
  assumes "0 < a"
  shows "- 1074 \<le> exponent a" and "a / pow2 (exponent a) < 2 ^ 53"
    and "2 ^ 52 \<le> a / pow2 (exponent a) \<or> exponent a = - 1074"
proof -
  have d: "a / pow2 (exponent a) = a * pow2 (0 - exponent a)"
    by (simp add: pow2_minus)
  have "- 1074 \<le> exponent a \<and> a * pow2 (0 - exponent a) < 2 ^ 53
     \<and> (2 ^ 52 \<le> a * pow2 (0 - exponent a) \<or> exponent a = - 1074)"
  proof (cases "2 ^ 53 \<le> a")
    case True
    then have e: "exponent a = scale_up a 0" by (simp add: exponent_def)
    show ?thesis using scale_up_spec[OF assms, of 0] True unfolding e by simp
  next
    case False
    then have e: "exponent a = scale_down a 0" by (simp add: exponent_def)
    show ?thesis using scale_down_spec[OF assms, of 0] False unfolding e by simp
  qed
  then show "- 1074 \<le> exponent a" and "a / pow2 (exponent a) < 2 ^ 53"
    and "2 ^ 52 \<le> a / pow2 (exponent a) \<or> exponent a = - 1074"
    unfolding d by simp_all
qed

lemma exponent_unique:
  assumes "0 < a" and "- 1074 \<le> e" and "a / pow2 e < 2 ^ 53"
    and "2 ^ 52 \<le> a / pow2 e \<or> e = - 1074"
  shows "exponent a = e"
proof -
  let ?e = "exponent a"
  note s = exponent_spec[OF assms(1)]
  have lt: "\<And>e1 e2. e1 < e2 \<Longrightarrow> a / pow2 e1 < 2 ^ 53 \<Longrightarrow> - 1074 \<le> e1
                 \<Longrightarrow> 2 ^ 52 \<le> a / pow2 e2 \<or> e2 = - 1074 \<Longrightarrow> False"
  proof -
    fix e1 e2 :: int
    assume h: "e1 < e2" "a / pow2 e1 < 2 ^ 53" "- 1074 \<le> e1" "2 ^ 52 \<le> a / pow2 e2 \<or> e2 = - 1074"
    then have "2 ^ 52 \<le> a / pow2 e2" by auto
    then have "2 ^ 52 * pow2 e2 \<le> a" using pow2_pos[of e2] by (simp add: pos_le_divide_eq)
    moreover have "pow2 (1 + e1) \<le> pow2 e2" using h(1) by (intro pow2_mono) simp
    then have "2 * pow2 e1 \<le> pow2 e2" by (simp only: pow2_add pow2_1)
    ultimately have "2 ^ 53 * pow2 e1 \<le> a" by simp
    then have "2 ^ 53 \<le> a / pow2 e1" using pow2_pos[of e1] by (simp add: pos_le_divide_eq)
    then show False using h(2) by simp
  qed
  show ?thesis
  proof (rule ccontr)
    assume "?e \<noteq> e"
    then consider "?e < e" | "e < ?e" by linarith
    then show False
    proof cases
      case 1
      then show False using lt[of ?e e] s assms by blast
    next
      case 2
      then show False using lt[of e ?e] s assms by blast
    qed
  qed
qed

lemma round_even_near: "\<bar>real_of_int (round_even y) - y\<bar> \<le> 1 / 2"
  unfolding round_even_def Let_def by (auto; linarith)

lemma round_even_eq:
  assumes "real_of_int m - 1 / 2 < y" and "y < real_of_int m + 1 / 2"
  shows "round_even y = m"
proof -
  have "\<bar>real_of_int (round_even y) - real_of_int m\<bar> < 1"
    using round_even_near[of y] assms by linarith
  then have "\<bar>round_even y - m\<bar> < 1" by linarith
  then show ?thesis by simp
qed

lemma round_float_positive:
  assumes "0 < x"
  shows "round_float x =
           (if 2 ^ 1024 \<le> real_of_int (round_even (x / pow2 (exponent x))) * pow2 (exponent x)
            then Infinity True
            else Finite (real_of_int (round_even (x / pow2 (exponent x))) * pow2 (exponent x)))"
  using assms by (simp add: round_float_def Let_def)

lemma round_float_certificate:
  assumes "0 < x" and "- 1074 \<le> e" and "x / pow2 e < 2 ^ 53"
    and "2 ^ 52 \<le> x / pow2 e \<or> e = - 1074"
    and "round_even (x / pow2 e) = m"
    and "real_of_int m * pow2 e < 2 ^ 1024"
  shows "round_float x = Finite (real_of_int m * pow2 e)"
proof -
  have e: "exponent x = e" using assms(1-4) by (rule exponent_unique)
  show ?thesis
    unfolding round_float_positive[OF assms(1)] e assms(5) using assms(6) by simp
qed


lemma round_float_0: "round_float 0 = Finite 0"
  by (simp add: round_float_def)

lemma round_float_error:
  assumes "pow2 (- 1022) \<le> x" and "x < pow2 1023"
  shows "\<exists>f. round_float x = Finite f \<and> \<bar>f - x\<bar> \<le> x / 2 ^ 53"
proof -
  have x0: "0 < x" using assms(1) pow2_pos[of "- 1022"] by linarith
  let ?e = "exponent x"
  let ?y = "x / pow2 ?e"
  let ?m = "round_even ?y"
  note s = exponent_spec[OF x0]
  have p: "0 < pow2 ?e" by (rule pow2_pos)
  have lo: "2 ^ 52 \<le> ?y"
  proof (cases "?e = - 1074")
    case True
    have "pow2 (- 1022) = pow2 52 * pow2 (- 1074)" by (simp add: pow2_add[symmetric])
    then have "2 ^ 52 * pow2 (- 1074) \<le> x" using assms(1) by (simp add: pow2_def)
    then show ?thesis unfolding True using pow2_pos[of "- 1074"] by (simp add: pos_le_divide_eq)
  next
    case False
    then show ?thesis using s(3) by simp
  qed
  then have lo': "2 ^ 52 * pow2 ?e \<le> x" using p by (simp add: pos_le_divide_eq)
  have near: "\<bar>real_of_int ?m - ?y\<bar> \<le> 1 / 2" by (rule round_even_near)
  have "\<bar>real_of_int ?m * pow2 ?e - x\<bar> = \<bar>real_of_int ?m - ?y\<bar> * pow2 ?e"
  proof -
    have "real_of_int ?m * pow2 ?e - x = (real_of_int ?m - ?y) * pow2 ?e"
      using p by (simp add: field_simps)
    then show ?thesis using p by (simp add: abs_mult)
  qed
  also have "\<dots> \<le> 1 / 2 * pow2 ?e" using near p by (intro mult_right_mono) simp_all
  also have "\<dots> \<le> x / 2 ^ 53" using lo' by simp
  finally have err: "\<bar>real_of_int ?m * pow2 ?e - x\<bar> \<le> x / 2 ^ 53" .
  have "real_of_int ?m \<le> ?y + 1 / 2" using near by linarith
  then have "real_of_int ?m < 2 ^ 53 + 1" using s(2) by linarith
  then have "real_of_int ?m < real_of_int (2 ^ 53 + 1)" by simp
  then have "?m < 2 ^ 53 + 1" by (simp only: of_int_less_iff)
  then have "?m \<le> 2 ^ 53" by simp
  then have "real_of_int ?m \<le> real_of_int (2 ^ 53)" by (simp only: of_int_le_iff)
  then have "real_of_int ?m \<le> 2 ^ 53" by simp
  then have "real_of_int ?m * pow2 ?e \<le> 2 ^ 53 * pow2 ?e" using p by (intro mult_right_mono) simp_all
  also have "\<dots> \<le> 2 * x" using lo' by simp
  also have "\<dots> < 2 * pow2 1023" using assms(2) by simp
  also have "\<dots> = 2 ^ 1024" by (simp add: pow2_def)
  finally have fin: "real_of_int ?m * pow2 ?e < 2 ^ 1024" .
  show ?thesis
    unfolding round_float_positive[OF x0] using fin err by simp
qed

lemma round_float_normal:
  assumes "1 / 2 ^ 1022 \<le> x" and "x \<le> 2 ^ 53"
  shows "\<exists>f. round_float x = Finite f \<and> x - x / 2 ^ 53 \<le> f \<and> f \<le> x + x / 2 ^ 53"
proof -
  have a: "pow2 (- 1022) \<le> x" using assms(1) by (simp add: pow2_def)
  have "(2::real) ^ 53 < 2 ^ 1023" by simp
  then have b: "x < pow2 1023" using assms(2) by (simp add: pow2_def)
  from round_float_error[OF a b] obtain f where
    f: "round_float x = Finite f" "\<bar>f - x\<bar> \<le> x / 2 ^ 53" by blast
  have "x - x / 2 ^ 53 \<le> f \<and> f \<le> x + x / 2 ^ 53" using f(2) by linarith
  then show ?thesis using f(1) by blast
qed

lemma round_even_le:
  assumes "y \<le> real_of_int k"
  shows "round_even y \<le> k"
proof -
  have f: "\<lfloor>y\<rfloor> \<le> k" using assms by (simp add: floor_le_iff)
  show ?thesis
  proof (cases "y - real_of_int \<lfloor>y\<rfloor> < 1 / 2")
    case True
    then show ?thesis using f by (simp add: round_even_def Let_def)
  next
    case False
    have "\<lfloor>y\<rfloor> \<noteq> k"
    proof
      assume "\<lfloor>y\<rfloor> = k"
      then have "y - real_of_int \<lfloor>y\<rfloor> \<le> 0" using assms by simp
      then show False using False by linarith
    qed
    then have "\<lfloor>y\<rfloor> + 1 \<le> k" using f by linarith
    then show ?thesis using f by (simp add: round_even_def Let_def)
  qed
qed

lemma round_float_le_int:
  assumes "1 / 2 ^ 1022 \<le> x" and "x \<le> 2 ^ 52" and "x \<le> real_of_int k"
    and "round_float x = Finite q"
  shows "q \<le> real_of_int k"
proof -
  have "(0::real) < 1 / 2 ^ 1022" by simp
  then have x0: "0 < x" using assms(1) by linarith
  let ?e = "exponent x"
  let ?y = "x / pow2 ?e"
  note s = exponent_spec[OF x0]
  have p: "0 < pow2 ?e" by (rule pow2_pos)
  have lo: "2 ^ 52 \<le> ?y"
  proof (cases "?e = - 1074")
    case True
    have "pow2 (- 1022) = pow2 52 * pow2 (- 1074)" by (simp add: pow2_add[symmetric])
    then have "2 ^ 52 * pow2 (- 1074) \<le> x" using assms(1) by (simp add: pow2_def)
    then show ?thesis unfolding True using pow2_pos[of "- 1074"] by (simp add: pos_le_divide_eq)
  next
    case False
    then show ?thesis using s(3) by simp
  qed
  then have lo': "2 ^ 52 * pow2 ?e \<le> x" using p by (simp add: pos_le_divide_eq)
  have e0: "?e \<le> 0"
  proof (rule ccontr)
    assume "\<not> ?e \<le> 0"
    then have "1 \<le> ?e" by simp
    then have "pow2 1 \<le> pow2 ?e" by (rule pow2_mono)
    then have "2 \<le> pow2 ?e" by (simp only: pow2_1)
    then have "2 ^ 52 * 2 \<le> 2 ^ 52 * pow2 ?e" by simp
    then show False using lo' assms(2) by simp
  qed
  then have pe: "pow2 ?e = 1 / 2 ^ nat (- ?e)" by (simp add: pow2_def)
  let ?K = "k * 2 ^ nat (- ?e)"
  have "?y \<le> real_of_int k / pow2 ?e" using assms(3) p by (simp add: divide_right_mono)
  also have "\<dots> = real_of_int ?K" by (simp add: pe)
  finally have "round_even ?y \<le> ?K" by (rule round_even_le)
  then have "real_of_int (round_even ?y) \<le> real_of_int ?K" by (simp only: of_int_le_iff)
  then have "real_of_int (round_even ?y) * pow2 ?e \<le> real_of_int ?K * pow2 ?e"
    using p by (intro mult_right_mono) simp_all
  also have "\<dots> = real_of_int k" by (simp add: pe)
  finally have le: "real_of_int (round_even ?y) * pow2 ?e \<le> real_of_int k" .
  have "q = real_of_int (round_even ?y) * pow2 ?e"
    using assms(4) unfolding round_float_positive[OF x0] by (simp split: if_splits)
  then show ?thesis using le by simp
qed

section \<open>Floats of the sample runs\<close>

text \<open>
  The roundings that the sample runs need, each with the exponent and the integer mantissa
  that certify it.
\<close>

lemma literal_045: "round_float (45 / 100) = Finite float_045"
proof -
  have "round_float (45 / 100) = Finite (real_of_int 8106479329266893 * pow2 (- 54))"
  proof (rule round_float_certificate)
    show "round_even ((45 / 100) / pow2 (- 54)) = 8106479329266893"
      by (rule round_even_eq) (simp_all add: pow2_def float_045_def)
  qed (simp_all add: pow2_def float_045_def)
  then show ?thesis by (simp add: pow2_def float_045_def)
qed

lemma literal_015: "round_float (15 / 100) = Finite float_015"
proof -
  have "round_float (15 / 100) = Finite (real_of_int 5404319552844595 * pow2 (- 55))"
  proof (rule round_float_certificate)
    show "round_even ((15 / 100) / pow2 (- 55)) = 5404319552844595"
      by (rule round_even_eq) (simp_all add: pow2_def float_015_def)
  qed (simp_all add: pow2_def float_015_def)
  then show ?thesis by (simp add: pow2_def float_015_def)
qed

lemma quotient_045_015: "round_float (float_045 / float_015) = Finite 3"
proof -
  have "round_float (float_045 / float_015) = Finite (real_of_int 6755399441055744 * pow2 (- 51))"
  proof (rule round_float_certificate)
    show "round_even ((float_045 / float_015) / pow2 (- 51)) = 6755399441055744"
      by (rule round_even_eq) (simp_all add: pow2_def float_045_def float_015_def)
  qed (simp_all add: pow2_def float_045_def float_015_def)
  then show ?thesis by (simp add: pow2_def float_045_def float_015_def)
qed

lemma round_three_quarters: "round_float (3 / 4) = Finite (3 / 4)"
proof -
  have "round_float (3 / 4) = Finite (real_of_int 6755399441055744 * pow2 (- 53))"
  proof (rule round_float_certificate)
    show "round_even ((3 / 4) / pow2 (- 53)) = 6755399441055744"
      by (rule round_even_eq) (simp_all add: pow2_def)
  qed (simp_all add: pow2_def)
  then show ?thesis by (simp add: pow2_def)
qed




lemma round_19_6: "round_float (19 / 6) = Finite (7130699410003285 / 2 ^ 51)"
proof -
  have "round_float (19 / 6) = Finite (real_of_int 7130699410003285 * pow2 (- 51))"
  proof (rule round_float_certificate)
    show "round_even ((19 / 6) / pow2 (- 51)) = 7130699410003285"
      by (rule round_even_eq) (simp_all add: pow2_def)
  qed (simp_all add: pow2_def)
  then show ?thesis by (simp add: pow2_def)
qed

lemma round_1: "round_float 1 = Finite 1"
proof -
  have "round_float 1 = Finite (real_of_int 4503599627370496 * pow2 (- 52))"
  proof (rule round_float_certificate)
    show "round_even (1 / pow2 (- 52)) = 4503599627370496"
      by (rule round_even_eq) (simp_all add: pow2_def)
  qed (simp_all add: pow2_def)
  then show ?thesis by (simp add: pow2_def)
qed

lemma round_7_3: "round_float (7 / 3) = Finite (5254199565265579 / 2 ^ 51)"
proof -
  have "round_float (7 / 3) = Finite (real_of_int 5254199565265579 * pow2 (- 51))"
  proof (rule round_float_certificate)
    show "round_even ((7 / 3) / pow2 (- 51)) = 5254199565265579"
      by (rule round_even_eq) (simp_all add: pow2_def)
  qed (simp_all add: pow2_def)
  then show ?thesis by (simp add: pow2_def)
qed





section \<open>Properties of the plan\<close>

lemma slides_needed_normal:
  assumes "0 < S" and "1 / 2 ^ 1022 \<le> D / S" and "D / S \<le> 2 ^ 52"
  shows "\<exists>q. round_float (D / S) = Finite q \<and> slides_needed D S = Inr \<lceil>q\<rceil>
           \<and> 1 \<le> \<lceil>q\<rceil> \<and> \<lceil>q\<rceil> < 2 ^ 53 \<and> \<bar>\<lceil>q\<rceil> - \<lceil>D / S\<rceil>\<bar> \<le> 1"
proof -
  let ?x = "D / S"
  have "(0::real) < 1 / 2 ^ 1022" by simp
  then have x0: "0 < ?x" using assms(2) by linarith
  have "?x \<le> 2 ^ 53" using assms(3) by simp
  from round_float_normal[OF assms(2) this] obtain q where
    q: "round_float ?x = Finite q" "?x - ?x / 2 ^ 53 \<le> q" "q \<le> ?x + ?x / 2 ^ 53" by blast
  have half: "?x / 2 ^ 53 \<le> 1 / 2" using assms(3) by simp
  have "?x / 2 ^ 53 < ?x" using x0 by simp
  then have q0: "0 < q" using q(2) by linarith
  then have c1: "1 \<le> \<lceil>q\<rceil>" by linarith
  have "q \<le> 2 ^ 52 + 1 / 2" using q(3) half assms(3) by linarith
  then have "\<lceil>q\<rceil> \<le> \<lceil>(2 ^ 52 + 1 / 2 :: real)\<rceil>" by (rule ceiling_mono)
  also have "\<dots> < 2 ^ 53" by simp
  finally have c2: "\<lceil>q\<rceil> < 2 ^ 53" .
  have "q \<le> ?x + 1" and "?x \<le> q + 1" using q(2,3) half by linarith+
  then have "q \<le> real_of_int \<lceil>?x\<rceil> + 1" and "?x \<le> real_of_int \<lceil>q\<rceil> + 1"
    using le_of_int_ceiling[of ?x] le_of_int_ceiling[of q] by linarith+
  then have "q \<le> real_of_int (\<lceil>?x\<rceil> + 1)" and "?x \<le> real_of_int (\<lceil>q\<rceil> + 1)"
    by simp_all
  then have "\<lceil>q\<rceil> \<le> \<lceil>?x\<rceil> + 1" and "\<lceil>?x\<rceil> \<le> \<lceil>q\<rceil> + 1"
    by (simp_all only: ceiling_le_iff)
  then have c3: "\<bar>\<lceil>q\<rceil> - \<lceil>?x\<rceil>\<bar> \<le> 1" by simp
  have "S \<noteq> 0" using assms(1) by simp
  then have "slides_needed D S = Inr \<lceil>q\<rceil>"
    by (simp add: slides_needed_def fdiv_def q(1) math_ceil_def)
  then show ?thesis using q(1) c1 c2 c3 by blast
qed

lemma repeats_needed_enough:
  assumes "1 \<le> sn" and "sn < 2 ^ 53" and "0 < n" and "n < 2 ^ 63"
  shows "\<exists>rn. repeats_needed sn n = Inr rn \<and> 1 \<le> rn \<and> sn \<le> rn * int n"
proof -
  let ?x = "real_of_int sn / real n"
  have n0: "0 < real n" using assms(3) by simp
  have sn1: "1 \<le> real_of_int sn" using assms(1) by simp
  have "real n < real (2 ^ 63)" using assms(4) by (simp only: of_nat_less_iff)
  moreover have "real (2 ^ 63) \<le> 2 ^ 1022" by simp
  ultimately have "real n \<le> 2 ^ 1022" by linarith
  then have "1 / 2 ^ 1022 \<le> 1 / real n" using n0 by (simp add: frac_le)
  also have "\<dots> \<le> ?x" using n0 sn1 by (simp add: divide_right_mono)
  finally have lo: "1 / 2 ^ 1022 \<le> ?x" .
  have "real_of_int sn < real_of_int (2 ^ 53)" using assms(2) by (simp only: of_int_less_iff)
  then have "real_of_int sn < 2 ^ 53" by simp
  moreover have "?x \<le> real_of_int sn" using n0 sn1 assms(3)
    by (simp add: pos_divide_le_eq mult_le_cancel_left1)
  ultimately have hi: "?x \<le> 2 ^ 53" and snb: "real_of_int sn / 2 ^ 53 < 1" by simp_all
  from round_float_normal[OF lo hi] obtain f where
    f: "round_float ?x = Finite f" "?x - ?x / 2 ^ 53 \<le> f" by blast
  have r: "repeats_needed sn n = Inr \<lceil>f\<rceil>"
    using assms(3) f(1) by (simp add: repeats_needed_def true_divide_def math_ceil_def)
  have err: "?x / 2 ^ 53 < 1 / real n"
  proof -
    have "?x / 2 ^ 53 = (real_of_int sn / 2 ^ 53) / real n" by simp
    also have "\<dots> < 1 / real n" using snb n0 by (rule divide_strict_right_mono)
    finally show ?thesis .
  qed
  have x0: "0 < ?x" using n0 sn1 by simp
  have "?x / 2 ^ 53 < ?x" using x0 by simp
  then have "0 < f" using f(2) by linarith
  then have k1: "1 \<le> \<lceil>f\<rceil>" by linarith
  have "sn \<le> \<lceil>f\<rceil> * int n"
  proof (rule ccontr)
    assume "\<not> sn \<le> \<lceil>f\<rceil> * int n"
    then have "\<lceil>f\<rceil> * int n \<le> sn - 1" by simp
    then have "real_of_int (\<lceil>f\<rceil> * int n) \<le> real_of_int (sn - 1)" by (simp only: of_int_le_iff)
    then have "real_of_int \<lceil>f\<rceil> * real n \<le> real_of_int sn - 1" by simp
    then have "real_of_int \<lceil>f\<rceil> \<le> (real_of_int sn - 1) / real n"
      using n0 by (simp add: pos_le_divide_eq)
    also have "\<dots> = ?x - 1 / real n" by (simp add: diff_divide_distrib)
    finally have "real_of_int \<lceil>f\<rceil> \<le> ?x - 1 / real n" .
    moreover have "f \<le> real_of_int \<lceil>f\<rceil>" by (rule le_of_int_ceiling)
    ultimately show False using f(2) err by linarith
  qed
  then show ?thesis using r k1 by blast
qed

lemma repeats_needed_zero: "0 < n \<Longrightarrow> repeats_needed 0 n = Inr 0"
  by (simp add: repeats_needed_def true_divide_def round_float_0 math_ceil_def)

lemma extended_plan:
  "fst (extended_image_list poster imgs sn rn src) =
     slice_to (poster # concat (passes (nat rn) imgs src)) sn"
proof -
  obtain ext src' where e: "extend_loop (nat rn) imgs ([poster], src) = (ext, src')"
    by force
  then have "ext = [poster] @ concat (passes (nat rn) imgs src)"
    using extend_loop_passes[of "nat rn" imgs "[poster]" src] by simp
  then show ?thesis using e by (simp add: extended_image_list_def)
qed

lemma plan_properties:
  assumes "1 \<le> sn" and "0 \<le> rn" and "sn \<le> 1 + rn * int (length imgs)"
  shows "length (fst (extended_image_list poster imgs sn rn src)) = nat sn"
    and "take 1 (fst (extended_image_list poster imgs sn rn src)) = [poster]"
    and "set (tl (fst (extended_image_list poster imgs sn rn src))) \<subseteq> set imgs"
proof -
  let ?body = "concat (passes (nat rn) imgs src)"
  have e: "fst (extended_image_list poster imgs sn rn src) = take (nat sn) (poster # ?body)"
    using assms(1) by (simp add: extended_plan slice_to_def)
  have "nat sn \<le> nat (1 + rn * int (length imgs))" using assms(3) by (rule nat_mono)
  also have "\<dots> = 1 + nat rn * length imgs"
    using assms(2) by (simp add: nat_add_distrib nat_mult_distrib)
  finally have "nat sn \<le> length (poster # ?body)" by (simp add: concat_passes_length)
  then show "length (fst (extended_image_list poster imgs sn rn src)) = nat sn"
    unfolding e by simp
  have "0 < nat sn" using assms(1) by simp
  then obtain k where k: "nat sn = Suc k" using gr0_implies_Suc by blast
  have e': "fst (extended_image_list poster imgs sn rn src) = poster # take k ?body"
    by (simp only: e k take_Suc_Cons)
  show "take 1 (fst (extended_image_list poster imgs sn rn src)) = [poster]"
    by (simp only: e') simp
  have "set (take k ?body) \<subseteq> set ?body" by (rule set_take_subset)
  also have "\<dots> \<subseteq> set imgs" by (rule concat_passes_set)
  finally show "set (tl (fst (extended_image_list poster imgs sn rn src))) \<subseteq> set imgs"
    by (simp only: e' list.sel)
qed

lemma sequence_plan_ok:
  assumes "audio w (music_path g) = Some D" and "slides_needed D S = Inr sn"
    and "repeats_needed sn (length imgs) = Inr rn"
  shows "sequence_plan g imgs song S w =
           (Inr (fst (extended_image_list (join (output_path g) (poster_name song)) imgs sn rn (random_source w)), D),
            w\<lparr>random_source := snd (extended_image_list (join (output_path g) (poster_name song)) imgs sn rn (random_source w))\<rparr>)"
  using assms by (simp add: sequence_plan_def split: prod.splits)

lemma plan_stage_ok:
  assumes "image_files g (files w) = Inr imgs" and "imgs \<noteq> []"
    and "map_of (song_info g) ''Poster Image'' = Some (Str url)"
    and "map_of (song_info g) ''Song'' = Some song"
    and "wget w url (output_path g @ ''/'' @ poster_name song) = Completed rc"
  shows "plan_stage g S w =
           sequence_plan g imgs song S
             (w\<lparr>effects := effects w @ [RanWget url (output_path g @ ''/'' @ poster_name song)]\<rparr>)"
  using assms by (simp add: plan_stage_def download_image_def)

lemma plan_stage_not_started:
  assumes "image_files g (files w) = Inr imgs" and "imgs \<noteq> []"
    and "map_of (song_info g) ''Poster Image'' = Some (Str url)"
    and "map_of (song_info g) ''Song'' = Some song"
    and "wget w url (output_path g @ ''/'' @ poster_name song) = NotStarted"
  shows "plan_stage g S w = (Inl (FileNotFoundError ''wget''), w)"
  using assms by (simp add: plan_stage_def download_image_def)

lemma extended_image_list_zero: "extended_image_list poster imgs 0 0 src = ([], src)"
  by (simp add: extended_image_list_def slice_to_def)

lemma slides_needed_bounds:
  assumes "0 < S" and "1 / 2 ^ 1022 \<le> D / S" and "D / S \<le> 2 ^ 52"
  shows "\<exists>q. round_float (D / S) = Finite q \<and> slides_needed D S = Inr \<lceil>q\<rceil>
           \<and> 1 \<le> \<lceil>q\<rceil> \<and> \<lceil>q\<rceil> < 2 ^ 53 \<and> \<lceil>D / S\<rceil> - 1 \<le> \<lceil>q\<rceil> \<and> \<lceil>q\<rceil> \<le> \<lceil>D / S\<rceil>"
proof -
  from slides_needed_normal[OF assms] obtain q where
    q: "round_float (D / S) = Finite q" "slides_needed D S = Inr \<lceil>q\<rceil>"
       "1 \<le> \<lceil>q\<rceil>" "\<lceil>q\<rceil> < 2 ^ 53" "\<bar>\<lceil>q\<rceil> - \<lceil>D / S\<rceil>\<bar> \<le> 1"
    by blast
  have c: "D / S \<le> real_of_int \<lceil>D / S\<rceil>" by (rule le_of_int_ceiling)
  have "q \<le> real_of_int \<lceil>D / S\<rceil>"
    by (rule round_float_le_int[OF assms(2,3) c q(1)])
  then have "\<lceil>q\<rceil> \<le> \<lceil>D / S\<rceil>" by (simp only: ceiling_le_iff)
  moreover have "\<lceil>D / S\<rceil> - 1 \<le> \<lceil>q\<rceil>" using q(5) by linarith
  ultimately show ?thesis using q(1-4) by blast
qed

lemma plan_stage_run:
  assumes "image_files g (files w) = Inr imgs" and "imgs \<noteq> []"
    and "map_of (song_info g) ''Poster Image'' = Some (Str url)"
    and "map_of (song_info g) ''Song'' = Some song"
    and "wget w url (output_path g @ ''/'' @ poster_name song) = Completed rc"
    and "audio w (music_path g) = Some D"
    and "slides_needed D S = Inr sn"
    and "repeats_needed sn (length imgs) = Inr rn"
  shows "plan_stage g S w =
           (Inr (fst (extended_image_list (join (output_path g) (poster_name song)) imgs sn rn (random_source w)), D),
            w\<lparr>effects := effects w @ [RanWget url (output_path g @ ''/'' @ poster_name song)],
               random_source := snd (extended_image_list (join (output_path g) (poster_name song)) imgs sn rn (random_source w))\<rparr>)"
proof -
  let ?w = "w\<lparr>effects := effects w @ [RanWget url (output_path g @ ''/'' @ poster_name song)]\<rparr>"
  have "plan_stage g S w = sequence_plan g imgs song S ?w"
    using assms(1-5) by (rule plan_stage_ok)
  moreover have "audio ?w (music_path g) = Some D" using assms(6) by simp
  ultimately show ?thesis
    using sequence_plan_ok[of ?w g D S sn imgs rn song] assms(7,8) by simp
qed


section \<open>Resize dimensions\<close>

lemma round_4_3: "round_float (4 / 3) = Finite (6004799503160661 / 2 ^ 52)"
proof -
  have "round_float (4 / 3) = Finite (real_of_int 6004799503160661 * pow2 (- 52))"
  proof (rule round_float_certificate)
    show "round_even ((4 / 3) / pow2 (- 52)) = 6004799503160661"
      by (rule round_even_eq) (simp_all add: pow2_def)
  qed (simp_all add: pow2_def)
  then show ?thesis by (simp add: pow2_def)
qed

lemma round_16_9: "round_float (16 / 9) = Finite (2001599834386887 / 2 ^ 50)"
proof -
  have "round_float (16 / 9) = Finite (real_of_int 8006399337547548 * pow2 (- 52))"
  proof (rule round_float_certificate)
    show "round_even ((16 / 9) / pow2 (- 52)) = 8006399337547548"
      by (rule round_even_eq) (simp_all add: pow2_def)
  qed (simp_all add: pow2_def)
  then show ?thesis by (simp add: pow2_def)
qed

lemma round_1080: "round_float 1080 = Finite 1080"
proof -
  have "round_float 1080 = Finite (real_of_int 4749890231992320 * pow2 (- 42))"
  proof (rule round_float_certificate)
    show "round_even (1080 / pow2 (- 42)) = 4749890231992320"
      by (rule round_even_eq) (simp_all add: pow2_def)
  qed (simp_all add: pow2_def)
  then show ?thesis by (simp add: pow2_def)
qed

lemma round_1920: "round_float 1920 = Finite 1920"
proof -
  have "round_float 1920 = Finite (real_of_int 8444249301319680 * pow2 (- 42))"
  proof (rule round_float_certificate)
    show "round_even (1920 / pow2 (- 42)) = 8444249301319680"
      by (rule round_even_eq) (simp_all add: pow2_def)
  qed (simp_all add: pow2_def)
  then show ?thesis by (simp add: pow2_def)
qed

lemma round_4000: "round_float 4000 = Finite 4000"
proof -
  have "round_float 4000 = Finite (real_of_int 8796093022208000 * pow2 (- 41))"
  proof (rule round_float_certificate)
    show "round_even (4000 / pow2 (- 41)) = 8796093022208000"
      by (rule round_even_eq) (simp_all add: pow2_def)
  qed (simp_all add: pow2_def)
  then show ?thesis by (simp add: pow2_def)
qed

lemma round_1440: "round_float (1080 * (6004799503160661 / 2 ^ 52)) = Finite 1440"
proof -
  have "round_float (1080 * (6004799503160661 / 2 ^ 52)) = Finite (real_of_int 6333186975989760 * pow2 (- 42))"
  proof (rule round_float_certificate)
    show "round_even ((1080 * (6004799503160661 / 2 ^ 52)) / pow2 (- 42)) = 6333186975989760"
      by (rule round_even_eq) (simp_all add: pow2_def)
  qed (simp_all add: pow2_def)
  then show ?thesis by (simp add: pow2_def)
qed

lemma round_048: "round_float (1920 / 4000) = Finite (1080863910568919 / 2 ^ 51)"
proof -
  have "round_float (1920 / 4000) = Finite (real_of_int 8646911284551352 * pow2 (- 54))"
  proof (rule round_float_certificate)
    show "round_even ((1920 / 4000) / pow2 (- 54)) = 8646911284551352"
      by (rule round_even_eq) (simp_all add: pow2_def)
  qed (simp_all add: pow2_def)
  then show ?thesis by (simp add: pow2_def)
qed

lemma true_divide_sample: "true_divide 800 600 = Inr (6004799503160661 / 2 ^ 52)"
  by (simp add: true_divide_def round_4_3)

lemma true_divide_canvas: "true_divide 1920 1080 = Inr (2001599834386887 / 2 ^ 50)"
  by (simp add: true_divide_def round_16_9)

lemma true_divide_thin: "true_divide 4000 1 = Inr 4000"
  by (simp add: true_divide_def round_4000)

lemma float_of_int_1080: "float_of_int 1080 = Inr 1080"
  by (simp add: float_of_int_def round_1080)

lemma float_of_int_1920: "float_of_int 1920 = Inr 1920"
  by (simp add: float_of_int_def round_1920)

lemma scaled_width_sample:
  "scaled_width example_generator (6004799503160661 / 2 ^ 52) = Inr 1440"
proof -
  have "height example_generator = 1080" by (simp add: example_generator_def)
  then have "scaled_width example_generator (6004799503160661 / 2 ^ 52)
      = int_of_float (round_float (1080 * (6004799503160661 / 2 ^ 52)))"
    by (simp add: scaled_width_def float_of_int_1080 fmul_def)
  also have "\<dots> = int_of_float (Finite 1440)" by (simp only: round_1440)
  also have "\<dots> = Inr 1440" by (simp add: int_of_float_def py_int_def)
  finally show ?thesis .
qed

lemma scaled_height_thin: "scaled_height example_generator 4000 = Inr 0"
proof -
  have "width example_generator = 1920" by (simp add: example_generator_def)
  then have "scaled_height example_generator 4000 = int_of_float (round_float (1920 / 4000))"
    by (simp add: scaled_height_def float_of_int_1920 fdiv_def)
  also have "\<dots> = int_of_float (Finite (1080863910568919 / 2 ^ 51))" by (simp only: round_048)
  also have "\<dots> = Inr 0" by (simp add: int_of_float_def py_int_def)
  finally show ?thesis .
qed

lemma sample_dimensions:
  "resize_dimensions example_generator (im_width sample_image) (im_height sample_image) = Inr (1440, 1080)"
proof -
  have g: "width example_generator = 1920" "height example_generator = 1080"
    by (simp_all add: example_generator_def)
  have i: "im_width sample_image = 800" "im_height sample_image = 600"
    by (simp_all add: sample_image_def new_image_def)
  have "resize_dimensions example_generator 800 600 =
      (case scaled_width example_generator (6004799503160661 / 2 ^ 52) of
         Inl e \<Rightarrow> Inl e
       | Inr new_width \<Rightarrow> Inr (new_width, int (height example_generator)))"
    by (simp add: resize_dimensions_def g true_divide_sample true_divide_canvas)
  also have "\<dots> = Inr (1440, 1080)"
    by (simp only: scaled_width_sample) (simp add: g)
  finally show ?thesis by (simp only: i)
qed

lemma thin_image_dimensions:
  "resize_dimensions example_generator (im_width thin_image) (im_height thin_image) = Inr (1920, 0)"
proof -
  have g: "width example_generator = 1920" "height example_generator = 1080"
    by (simp_all add: example_generator_def)
  have i: "im_width thin_image = 4000" "im_height thin_image = 1"
    by (simp_all add: thin_image_def new_image_def)
  have "resize_dimensions example_generator 4000 1 =
      (case scaled_height example_generator 4000 of
         Inl e \<Rightarrow> Inl e
       | Inr new_height \<Rightarrow> Inr (int (width example_generator), new_height))"
    by (simp add: resize_dimensions_def g true_divide_thin true_divide_canvas)
  also have "\<dots> = Inr (1920, 0)"
    by (simp only: scaled_height_thin) (simp add: g)
  finally show ?thesis by (simp only: i)
qed

lemma round_52_45: "round_float (52 / 45) = Finite (2602079784702953 / 2 ^ 51)"
proof -
  have "round_float (52 / 45) = Finite (real_of_int 5204159569405906 * pow2 (- 52))"
  proof (rule round_float_certificate)
    show "round_even ((52 / 45) / pow2 (- 52)) = 5204159569405906"
      by (rule round_even_eq) (simp_all add: pow2_def)
  qed (simp_all add: pow2_def)
  then show ?thesis by (simp add: pow2_def)
qed

lemma round_wide_product: "round_float (1080 * (2602079784702953 / 2 ^ 51)) = Finite (5488762045857791 / 2 ^ 42)"
proof -
  have "round_float (1080 * (2602079784702953 / 2 ^ 51)) = Finite (real_of_int 5488762045857791 * pow2 (- 42))"
  proof (rule round_float_certificate)
    show "round_even ((1080 * (2602079784702953 / 2 ^ 51)) / pow2 (- 42)) = 5488762045857791"
      by (rule round_even_eq) (simp_all add: pow2_def)
  qed (simp_all add: pow2_def)
  then show ?thesis by (simp add: pow2_def)
qed

lemma round_60_29: "round_float (60 / 29) = Finite (4658896166245341 / 2 ^ 51)"
proof -
  have "round_float (60 / 29) = Finite (real_of_int 4658896166245341 * pow2 (- 51))"
  proof (rule round_float_certificate)
    show "round_even ((60 / 29) / pow2 (- 51)) = 4658896166245341"
      by (rule round_even_eq) (simp_all add: pow2_def)
  qed (simp_all add: pow2_def)
  then show ?thesis by (simp add: pow2_def)
qed

lemma round_tall_quotient: "round_float (1920 / (4658896166245341 / 2 ^ 51)) = Finite (8162774324609023 / 2 ^ 43)"
proof -
  have "round_float (1920 / (4658896166245341 / 2 ^ 51)) = Finite (real_of_int 8162774324609023 * pow2 (- 43))"
  proof (rule round_float_certificate)
    show "round_even ((1920 / (4658896166245341 / 2 ^ 51)) / pow2 (- 43)) = 8162774324609023"
      by (rule round_even_eq) (simp_all add: pow2_def)
  qed (simp_all add: pow2_def)
  then show ?thesis by (simp add: pow2_def)
qed

text \<open>
  The rounding shows in the pixel sizes: an image of 1040 by 900 pixels is resized to a width
  of 1247 (the exact product is 1248), one of 1200 by 580 pixels to a height of 927 (the exact
  quotient is 928).
\<close>

lemma resize_dimensions_1040_900:
  "resize_dimensions example_generator 1040 900 = Inr (1247, 1080)"
proof -
  have g: "width example_generator = 1920" "height example_generator = 1080"
    by (simp_all add: example_generator_def)
  have t: "true_divide 1040 900 = Inr (2602079784702953 / 2 ^ 51)"
    by (simp add: true_divide_def round_52_45)
  have "scaled_width example_generator (2602079784702953 / 2 ^ 51) = int_of_float (round_float (1080 * (2602079784702953 / 2 ^ 51)))"
    by (simp add: scaled_width_def g float_of_int_1080 fmul_def)
  also have "\<dots> = int_of_float (Finite (5488762045857791 / 2 ^ 42))" by (simp only: round_wide_product)
  also have "\<dots> = Inr 1247" by (simp add: int_of_float_def py_int_def floor_eq_iff)
  finally have s: "scaled_width example_generator (2602079784702953 / 2 ^ 51) = Inr 1247" .
  have "resize_dimensions example_generator 1040 900 =
      (case scaled_width example_generator (2602079784702953 / 2 ^ 51) of
         Inl e \<Rightarrow> Inl e
       | Inr new_width \<Rightarrow> Inr (new_width, int (height example_generator)))"
    by (simp add: resize_dimensions_def g t true_divide_canvas)
  also have "\<dots> = Inr (1247, 1080)"
    by (simp only: s) (simp add: g)
  finally show ?thesis .
qed

lemma resize_dimensions_1200_580:
  "resize_dimensions example_generator 1200 580 = Inr (1920, 927)"
proof -
  have g: "width example_generator = 1920" "height example_generator = 1080"
    by (simp_all add: example_generator_def)
  have t: "true_divide 1200 580 = Inr (4658896166245341 / 2 ^ 51)"
    by (simp add: true_divide_def round_60_29)
  have "scaled_height example_generator (4658896166245341 / 2 ^ 51) = int_of_float (round_float (1920 / (4658896166245341 / 2 ^ 51)))"
    by (simp add: scaled_height_def g float_of_int_1920 fdiv_def)
  also have "\<dots> = int_of_float (Finite (8162774324609023 / 2 ^ 43))" by (simp only: round_tall_quotient)
  also have "\<dots> = Inr 927" by (simp add: int_of_float_def py_int_def floor_eq_iff)
  finally have s: "scaled_height example_generator (4658896166245341 / 2 ^ 51) = Inr 927" .
  have "resize_dimensions example_generator 1200 580 =
      (case scaled_height example_generator (4658896166245341 / 2 ^ 51) of
         Inl e \<Rightarrow> Inl e
       | Inr new_height \<Rightarrow> Inr (int (width example_generator), new_height))"
    by (simp add: resize_dimensions_def g t true_divide_canvas)
  also have "\<dots> = Inr (1920, 927)"
    by (simp only: s) (simp add: g)
  finally show ?thesis .
qed

section \<open>Rendered slides\<close>

lemma slide_canvas_succeeds:
  assumes "resize_dimensions g (im_width img) (im_height img) = Inr sz"
    and "resize wd img sz = Inr img_resized"
  shows "\<exists>canvas. slide_canvas g wd img = Inr canvas"
proof -
  obtain footer where "footer_overlay g = Inr footer" using footer_overlay_ok by blast
  then show ?thesis using assms by (simp add: slide_canvas_def Let_def)
qed

lemma sample_resize:
  "\<exists>r. resize wd sample_image (1440, 1080) = Inr r"
  by (simp add: resize_def sample_image_def new_image_def)

lemma sample_canvas: "\<exists>canvas. slide_canvas example_generator wd sample_image = Inr canvas"
  using slide_canvas_succeeds[OF sample_dimensions] sample_resize by blast






lemma paste_position_centred:
  assumes "paste_position g (nw, nh) = (px, py)" and "0 \<le> nw" and "nw \<le> int (width g)"
    and "0 \<le> nh" and "nh \<le> int (height g)"
  shows "0 \<le> px \<and> px + nw \<le> int (width g) \<and> (int (width g) - nw - px) - px \<in> {0, 1}
       \<and> 0 \<le> py \<and> py + nh \<le> int (height g) \<and> (int (height g) - nh - py) - py \<in> {0, 1}"
  using assms by (auto simp: paste_position_def)

text \<open>
  The overlay is black in all three colour channels, so the mask that \<open>convert('L')\<close> makes
  of it is 0 everywhere, and a mask value of 0 keeps the channel under it.
\<close>

lemma footer_mask_black:
  assumes "footer_overlay g = Inr footer"
  shows "im_data (convert_L footer) x y = 0"
proof -
  obtain f where f: "footer_overlay g = Inr f"
    and d: "\<forall>x y. im_data f x y =
            (if x < width g \<and> y < footer_height g then (0, 0, 0, clip8 (alpha g y)) else (0, 0, 0, 0))"
    using footer_overlay_ok by blast
  then have "f = footer" using assms by simp
  then show ?thesis using d by (simp add: convert_L_def)
qed

lemma blend8_mask_zero: "c \<le> 255 \<Longrightarrow> blend8 0 c ink = c"
  by (simp add: blend8_def div255_def Let_def)

section \<open>Assembly\<close>






section \<open>The sample runs\<close>

lemma slides_needed_95_30: "slides_needed 95 30 = Inr 4"
proof -
  have "slides_needed 95 30 = math_ceil (round_float (19 / 6))"
    by (simp add: slides_needed_def fdiv_def)
  also have "\<dots> = math_ceil (Finite (7130699410003285 / 2 ^ 51))" by (simp only: round_19_6)
  also have "\<dots> = Inr 4" by (simp add: math_ceil_def)
  finally show ?thesis .
qed

lemma repeats_needed_4_4: "repeats_needed 4 4 = Inr 1"
  by (simp add: repeats_needed_def true_divide_def round_1 math_ceil_def)

lemma repeats_needed_3_4: "repeats_needed 3 4 = Inr 1"
  by (simp add: repeats_needed_def true_divide_def round_three_quarters math_ceil_def)

lemma repeats_needed_7_3: "repeats_needed 7 3 = Inr 3"
proof -
  have "repeats_needed 7 3 = math_ceil (round_float (7 / 3))"
    by (simp add: repeats_needed_def true_divide_def round_7_3)
  also have "\<dots> = math_ceil (Finite (5254199565265579 / 2 ^ 51))" by (simp only: round_7_3)
  also have "\<dots> = Inr 3" by (simp add: math_ceil_def)
  finally show ?thesis .
qed

lemma slides_needed_short: "slides_needed float_045 float_015 = Inr 3"
proof -
  have "float_015 \<noteq> 0" by (simp add: float_015_def)
  then have "slides_needed float_045 float_015 = math_ceil (round_float (float_045 / float_015))"
    by (simp add: slides_needed_def fdiv_def)
  also have "\<dots> = math_ceil (Finite 3)" by (simp only: quotient_045_015)
  also have "\<dots> = Inr 3" by (simp add: math_ceil_def)
  finally show ?thesis .
qed

lemma exact_quotient_short: "\<lceil>float_045 / float_015\<rceil> = 4"
  by (simp add: float_045_def float_015_def ceiling_eq_iff)

lemma slides_needed_0: "S \<noteq> 0 \<Longrightarrow> slides_needed 0 S = Inr 0"
  by (simp add: slides_needed_def fdiv_def round_float_0 math_ceil_def)



lemma example_plan_95:
  "fst (extended_image_list (join (output_path example_generator) (poster_name (Str ''Tune'')))
         example_images 4 1 (random_source example_world))
     = [''/out/Tune Poster.jpg'', ''/img/asha.2.jpeg'', ''/img/kishore.b.gif'', ''/img/kishore.a.PNG'']"
  by code_simp

lemma example_plan_short:
  "fst (extended_image_list (join (output_path example_generator) (poster_name (Str ''Tune'')))
         example_images 3 1 (random_source example_world))
     = [''/out/Tune Poster.jpg'', ''/img/asha.2.jpeg'', ''/img/kishore.b.gif'']"
  by code_simp

lemma example_images_length: "length example_images = 4"
  by (simp add: example_images_def)

lemma short_song_plan:
  "plan_stage example_generator float_015 short_song_world =
     (Inr ([''/out/Tune Poster.jpg'', ''/img/asha.2.jpeg'', ''/img/kishore.b.gif''], float_045),
      short_song_world\<lparr>effects := effects short_song_world @
           [RanWget ''http://posters/tune.jpg'' (output_path example_generator @ ''/'' @ poster_name (Str ''Tune''))],
         random_source := snd (extended_image_list (join (output_path example_generator) (poster_name (Str ''Tune'')))
                                 example_images 3 1 (random_source short_song_world))\<rparr>)"
proof -
  have 1: "image_files example_generator (files short_song_world) = Inr example_images"
    using example_catalog by (simp add: short_song_world_def example_world_def)
  have 5: "wget short_song_world ''http://posters/tune.jpg''
             (output_path example_generator @ ''/'' @ poster_name (Str ''Tune'')) = Completed 0"
    by (simp add: short_song_world_def example_world_def)
  have 6: "audio short_song_world (music_path example_generator) = Some float_045"
    by (simp add: short_song_world_def)
  have 8: "repeats_needed 3 (length example_images) = Inr 1"
    by (simp only: example_images_length repeats_needed_3_4)
  have s: "random_source short_song_world = random_source example_world"
    by (simp add: short_song_world_def)
  show ?thesis
    using plan_stage_run[OF 1 example_images_nonempty example_poster example_song_name 5 6
            slides_needed_short 8]
    by (simp only: s example_plan_short)
qed

lemma example_plan_stage:
  assumes "files w = example_files" and "wget w = (\<lambda>url dest. Completed rc)"
    and "audio w = audio example_world" and "random_source w = random_source example_world"
  shows "plan_stage example_generator 30 w =
     (Inr ([''/out/Tune Poster.jpg'', ''/img/asha.2.jpeg'', ''/img/kishore.b.gif'', ''/img/kishore.a.PNG''], 95),
      w\<lparr>effects := effects w @
           [RanWget ''http://posters/tune.jpg'' (output_path example_generator @ ''/'' @ poster_name (Str ''Tune''))],
         random_source := snd (extended_image_list (join (output_path example_generator) (poster_name (Str ''Tune'')))
                                 example_images 4 1 (random_source w))\<rparr>)"
proof -
  have 1: "image_files example_generator (files w) = Inr example_images"
    using example_catalog by (simp add: assms(1))
  have 5: "wget w ''http://posters/tune.jpg''
             (output_path example_generator @ ''/'' @ poster_name (Str ''Tune'')) = Completed rc"
    by (simp add: assms(2))
  have 6: "audio w (music_path example_generator) = Some 95"
    by (simp add: assms(3) example_world_def example_generator_def)
  have 8: "repeats_needed 4 (length example_images) = Inr 1"
    by (simp only: example_images_length repeats_needed_4_4)
  have e: "fst (extended_image_list (join (output_path example_generator) (poster_name (Str ''Tune'')))
         example_images 4 1 (random_source w))
     = [''/out/Tune Poster.jpg'', ''/img/asha.2.jpeg'', ''/img/kishore.b.gif'', ''/img/kishore.a.PNG'']"
    by (simp only: assms(4) example_plan_95)
  show ?thesis
    using plan_stage_run[OF 1 example_images_nonempty example_poster example_song_name 5 6
            slides_needed_95_30 8]
    by (simp only: e)
qed

section \<open>The claims\<close>

text \<open>
  C1, as the program has it. The number of slides is the ceiling of the float quotient \<open>q\<close>
  of the audio duration \<open>D\<close> by the slide duration \<open>S\<close>, not of the exact quotient. For
  \<open>S > 0\<close>, \<open>D / S\<close> between \<open>2 ^ - 1022\<close> and \<open>2 ^ 52\<close>, and a non-empty filtered catalog of
  fewer than \<open>2 ^ 63\<close> images, the plan is produced and has exactly \<open>ceil(q)\<close> entries, which is
  at least 1 and is \<open>ceil(D / S)\<close> or one less; its first entry is the poster image, every
  later entry comes from the filtered catalog, and the poster with \<open>repeats_needed\<close> shuffles
  of the catalog is at least \<open>ceil(q)\<close> entries long, so the truncation never leaves the plan
  shorter than \<open>ceil(q)\<close>.
\<close>

theorem plan_has_poster_and_length:
  assumes "0 < S" and "1 / 2 ^ 1022 \<le> D / S" and "D / S \<le> 2 ^ 52"
    and "image_files g (files w) = Inr imgs" and "imgs \<noteq> []" and "length imgs < 2 ^ 63"
    and "map_of (song_info g) ''Poster Image'' = Some (Str url)"
    and "map_of (song_info g) ''Song'' = Some song"
    and "wget w url (output_path g @ ''/'' @ poster_name song) = Completed rc"
    and "audio w (music_path g) = Some D"
  shows "\<exists>q rn plan w'. round_float (D / S) = Finite q
           \<and> slides_needed D S = Inr \<lceil>q\<rceil>
           \<and> repeats_needed \<lceil>q\<rceil> (length imgs) = Inr rn
           \<and> plan_stage g S w = (Inr (plan, D), w')
           \<and> length plan = nat \<lceil>q\<rceil>
           \<and> 1 \<le> \<lceil>q\<rceil> \<and> \<lceil>D / S\<rceil> - 1 \<le> \<lceil>q\<rceil> \<and> \<lceil>q\<rceil> \<le> \<lceil>D / S\<rceil>
           \<and> take 1 plan = [join (output_path g) (poster_name song)]
           \<and> set (tl plan) \<subseteq> set imgs
           \<and> \<lceil>q\<rceil> \<le> 1 + rn * int (length imgs)"
proof -
  from slides_needed_bounds[OF assms(1-3)] obtain q where
    q: "round_float (D / S) = Finite q" "slides_needed D S = Inr \<lceil>q\<rceil>"
       "1 \<le> \<lceil>q\<rceil>" "\<lceil>q\<rceil> < 2 ^ 53" "\<lceil>D / S\<rceil> - 1 \<le> \<lceil>q\<rceil>" "\<lceil>q\<rceil> \<le> \<lceil>D / S\<rceil>"
    by (elim exE conjE)
  have n0: "0 < length imgs" using assms(5) by simp
  from repeats_needed_enough[OF q(3,4) n0 assms(6)] obtain rn where
    rn: "repeats_needed \<lceil>q\<rceil> (length imgs) = Inr rn" "1 \<le> rn" "\<lceil>q\<rceil> \<le> rn * int (length imgs)"
    by (elim exE conjE)
  let ?e = "extended_image_list (join (output_path g) (poster_name song)) imgs \<lceil>q\<rceil> rn (random_source w)"
  let ?w = "w\<lparr>effects := effects w @ [RanWget url (output_path g @ ''/'' @ poster_name song)],
              random_source := snd ?e\<rparr>"
  have p: "plan_stage g S w = (Inr (fst ?e, D), ?w)"
    by (rule plan_stage_run[OF assms(4,5,7,8,9,10) q(2) rn(1)])
  have r0: "0 \<le> rn" and cov: "\<lceil>q\<rceil> \<le> 1 + rn * int (length imgs)"
    using rn(2,3) by simp_all
  note pp = plan_properties[OF q(3) r0 cov, of "join (output_path g) (poster_name song)" "random_source w"]
  have "round_float (D / S) = Finite q
           \<and> slides_needed D S = Inr \<lceil>q\<rceil>
           \<and> repeats_needed \<lceil>q\<rceil> (length imgs) = Inr rn
           \<and> plan_stage g S w = (Inr (fst ?e, D), ?w)
           \<and> length (fst ?e) = nat \<lceil>q\<rceil>
           \<and> 1 \<le> \<lceil>q\<rceil> \<and> \<lceil>D / S\<rceil> - 1 \<le> \<lceil>q\<rceil> \<and> \<lceil>q\<rceil> \<le> \<lceil>D / S\<rceil>
           \<and> take 1 (fst ?e) = [join (output_path g) (poster_name song)]
           \<and> set (tl (fst ?e)) \<subseteq> set imgs
           \<and> \<lceil>q\<rceil> \<le> 1 + rn * int (length imgs)"
    by (intro conjI q(1) q(2) rn(1) p pp(1) q(3) q(5) q(6) pp(2) pp(3) cov)
  then show ?thesis by (intro exI)
qed

theorem plan_has_poster_and_length_witness:
  "\<exists>q rn plan w'. round_float (95 / 30) = Finite q
     \<and> slides_needed 95 30 = Inr \<lceil>q\<rceil>
     \<and> repeats_needed \<lceil>q\<rceil> (length example_images) = Inr rn
     \<and> plan_stage example_generator 30 example_world = (Inr (plan, 95), w')
     \<and> length plan = nat \<lceil>q\<rceil>
     \<and> 1 \<le> \<lceil>q\<rceil> \<and> \<lceil>95 / 30 :: real\<rceil> - 1 \<le> \<lceil>q\<rceil> \<and> \<lceil>q\<rceil> \<le> \<lceil>95 / 30 :: real\<rceil>
     \<and> take 1 plan = [join (output_path example_generator) (poster_name (Str ''Tune''))]
     \<and> set (tl plan) \<subseteq> set example_images
     \<and> \<lceil>q\<rceil> \<le> 1 + rn * int (length example_images)"
proof -
  have 1: "(0::real) < 30" by simp
  have 2: "1 / 2 ^ 1022 \<le> (95::real) / 30" by simp
  have 3: "(95::real) / 30 \<le> 2 ^ 52" by simp
  have 4: "image_files example_generator (files example_world) = Inr example_images"
    using example_catalog by (simp add: example_world_def)
  have 6: "length example_images < 2 ^ 63"
    by (simp add: example_images_length)
  have 9: "wget example_world ''http://posters/tune.jpg''
             (output_path example_generator @ ''/'' @ poster_name (Str ''Tune'')) = Completed 0"
    by (simp add: example_world_def)
  have 10: "audio example_world (music_path example_generator) = Some 95"
    by (simp add: example_world_def example_generator_def)
  show ?thesis
    by (rule plan_has_poster_and_length[OF 1 2 3 4 example_images_nonempty 6 example_poster
          example_song_name 9 10])
qed

text \<open>
  C1 as stated (the plan has \<open>ceil(D / S)\<close> entries) does not hold: for an audio file of
  0.45 seconds and slides of 0.15 seconds the float quotient is exactly 3, so the program plans
  3 slides, while the quotient of the two floats is above 3 and its ceiling is 4.
\<close>

theorem plan_length_counterexample:
  "round_float (45 / 100) = Finite float_045 \<and> round_float (15 / 100) = Finite float_015
   \<and> 0 < float_045 \<and> 0 < float_015
   \<and> fst (plan_stage example_generator float_015 short_song_world) =
       Inr ([''/out/Tune Poster.jpg'', ''/img/asha.2.jpeg'', ''/img/kishore.b.gif''], float_045)
   \<and> length [''/out/Tune Poster.jpg'', ''/img/asha.2.jpeg'', ''/img/kishore.b.gif''] = 3
   \<and> nat \<lceil>float_045 / float_015\<rceil> = 4"
proof -
  have a: "0 < float_045" and b: "0 < float_015"
    by (simp_all add: float_045_def float_015_def)
  have p: "fst (plan_stage example_generator float_015 short_song_world) =
       Inr ([''/out/Tune Poster.jpg'', ''/img/asha.2.jpeg'', ''/img/kishore.b.gif''], float_045)"
    by (simp only: short_song_plan fst_conv)
  have l: "length [''/out/Tune Poster.jpg'', ''/img/asha.2.jpeg'', ''/img/kishore.b.gif''] = 3"
    by simp
  have c: "nat \<lceil>float_045 / float_015\<rceil> = 4"
    by (simp add: exact_quotient_short)
  show ?thesis
    by (intro conjI literal_045 literal_015 a b p l c)
qed




text \<open>
  C8. For every random source, the plan before truncation is the poster followed by
  \<open>repeats_needed\<close> passes, also in the plan that \<open>create_music_driven_slideshow\<close> computes;
  each pass is a permutation of the whole filtered image list (every image as often as in the
  list, so none twice in a pass when the list has no duplicate), and each pass is a new
  shuffle of the list with the random source as the pass before left it, not a copy of an
  earlier pass.
\<close>

theorem shuffle_passes_are_permutations:
  assumes "audio w (music_path g) = Some D" and "slides_needed D S = Inr sn"
    and "repeats_needed sn (length imgs) = Inr rn"
  shows "fst (sequence_plan g imgs song S w) =
           Inr (slice_to (join (output_path g) (poster_name song)
                            # concat (passes (nat rn) imgs (random_source w))) sn, D)
   \<and> fst (extended_image_list poster imgs sn rn src) =
       slice_to (poster # concat (passes (nat rn) imgs src)) sn
   \<and> length (passes (nat rn) imgs src) = nat rn
   \<and> (\<forall>p \<in> set (passes (nat rn) imgs src).
         mset p = mset imgs \<and> length p = length imgs \<and> (distinct imgs \<longrightarrow> distinct p))
   \<and> passes (Suc n) imgs src = fst (shuffle imgs src) # passes n imgs (snd (shuffle imgs src))"
proof -
  have 1: "fst (sequence_plan g imgs song S w) =
           Inr (slice_to (join (output_path g) (poster_name song)
                            # concat (passes (nat rn) imgs (random_source w))) sn, D)"
    by (simp only: sequence_plan_ok[OF assms] fst_conv extended_plan)
  have 2: "fst (extended_image_list poster imgs sn rn src) =
       slice_to (poster # concat (passes (nat rn) imgs src)) sn"
    by (rule extended_plan)
  have 3: "length (passes (nat rn) imgs src) = nat rn"
    by (rule length_passes)
  have 4: "\<forall>p \<in> set (passes (nat rn) imgs src).
         mset p = mset imgs \<and> length p = length imgs \<and> (distinct imgs \<longrightarrow> distinct p)"
  proof
    fix p assume "p \<in> set (passes (nat rn) imgs src)"
    then have m: "mset p = mset imgs" by (rule passes_perm)
    then show "mset p = mset imgs \<and> length p = length imgs \<and> (distinct imgs \<longrightarrow> distinct p)"
      using mset_eq_length mset_eq_imp_distinct_iff by blast
  qed
  have 5: "passes (Suc n) imgs src = fst (shuffle imgs src) # passes n imgs (snd (shuffle imgs src))"
    by (simp add: case_prod_beta)
  show ?thesis by (intro conjI 1 2 3 4 5)
qed

theorem shuffle_passes_are_permutations_witness:
  "repeats_needed 4 (length [''a'', ''b'', ''c'']) = Inr 2
   \<and> passes (nat 2) [''a'', ''b'', ''c''] (\<lambda>k. k) = [[''c'', ''b'', ''a''], [''a'', ''b'', ''c'']]
   \<and> fst (sequence_plan example_generator [''a'', ''b'', ''c''] (Str ''Tune'') 30 example_world) =
       Inr ([''/out/Tune Poster.jpg'', ''c'', ''b'', ''a''], 95)
   \<and> fst (extended_image_list ''p'' [''a'', ''b'', ''c''] 4 2 (\<lambda>k. k)) = [''p'', ''c'', ''b'', ''a'']
   \<and> mset [''c'', ''b'', ''a''] = mset [''a'', ''b'', ''c'']
   \<and> length [''c'', ''b'', ''a''] = length [''a'', ''b'', ''c'']
   \<and> distinct [''c'', ''b'', ''a'']"
proof -
  have h1: "audio example_world (music_path example_generator) = Some 95"
    by (simp add: example_world_def example_generator_def)
  have "true_divide 4 (int (length [''a'', ''b'', ''c''])) = Inr (6004799503160661 / 2 ^ 52)"
    by (simp add: true_divide_def round_4_3)
  then have h3: "repeats_needed 4 (length [''a'', ''b'', ''c'']) = Inr 2"
    by (simp add: repeats_needed_def math_ceil_def)
  have s: "random_source example_world = (\<lambda>k. k)"
    by (simp add: example_world_def)
  have ps: "passes (nat 2) [''a'', ''b'', ''c''] (\<lambda>k. k) = [[''c'', ''b'', ''a''], [''a'', ''b'', ''c'']]"
    by code_simp
  have j: "join (output_path example_generator) (poster_name (Str ''Tune'')) = ''/out/Tune Poster.jpg''"
    by code_simp
  have sl: "slice_to (''/out/Tune Poster.jpg'' # concat [[''c'', ''b'', ''a''], [''a'', ''b'', ''c'']]) 4
     = [''/out/Tune Poster.jpg'', ''c'', ''b'', ''a'']"
    by (simp add: slice_to_def)
  have sl': "slice_to (''p'' # concat [[''c'', ''b'', ''a''], [''a'', ''b'', ''c'']]) 4
     = [''p'', ''c'', ''b'', ''a'']"
    by (simp add: slice_to_def)
  note th = shuffle_passes_are_permutations[OF h1 slides_needed_95_30 h3,
      of "Str ''Tune''" "''p''" "\<lambda>k. k" 0, unfolded s ps j sl sl']
  have a: "fst (sequence_plan example_generator [''a'', ''b'', ''c''] (Str ''Tune'') 30 example_world) =
       Inr ([''/out/Tune Poster.jpg'', ''c'', ''b'', ''a''], 95)"
    by (rule th[THEN conjunct1])
  have b: "fst (extended_image_list ''p'' [''a'', ''b'', ''c''] 4 2 (\<lambda>k. k)) = [''p'', ''c'', ''b'', ''a'']"
    by (rule th[THEN conjunct2, THEN conjunct1])
  have c: "\<forall>p \<in> set [[''c'', ''b'', ''a''], [''a'', ''b'', ''c'']].
         mset p = mset [''a'', ''b'', ''c''] \<and> length p = length [''a'', ''b'', ''c'']
         \<and> (distinct [''a'', ''b'', ''c''] \<longrightarrow> distinct p)"
    by (rule th[THEN conjunct2, THEN conjunct2, THEN conjunct2, THEN conjunct1])
  have m: "[''c'', ''b'', ''a''] \<in> set [[''c'', ''b'', ''a''], [''a'', ''b'', ''c'']]"
    by simp
  have d: "distinct [''a'', ''b'', ''c'']"
    by simp
  note e = c[rule_format, OF m]
  show ?thesis
    by (intro conjI h3 ps a b e[THEN conjunct1] e[THEN conjunct2, THEN conjunct1]
          e[THEN conjunct2, THEN conjunct2, rule_format, OF d])
qed

text \<open>
  C5, as the program has it. When \<open>slides_needed\<close> is 0 the program raises nothing while
  planning: the plan is the empty list, no slide is rendered, and the empty plan is what the
  rendering and assembly part of the method receives. The program has no check of
  \<open>slides_needed\<close>.
\<close>

theorem zero_slides_plan_is_empty:
  assumes "image_files g (files w) = Inr imgs" and "imgs \<noteq> []"
    and "map_of (song_info g) ''Poster Image'' = Some (Str url)"
    and "map_of (song_info g) ''Song'' = Some song"
    and "wget w url (output_path g @ ''/'' @ poster_name song) = Completed rc"
    and "audio w (music_path g) = Some D"
    and "slides_needed D S = Inr 0"
  shows "plan_stage g S w =
           (Inr ([], D), w\<lparr>effects := effects w @ [RanWget url (output_path g @ ''/'' @ poster_name song)]\<rparr>)
         \<and> render_all g w' [] S = Inr []
         \<and> create_music_driven_slideshow g S c w =
             assemble g [] D S c (w\<lparr>effects := effects w @ [RanWget url (output_path g @ ''/'' @ poster_name song)]\<rparr>)"
proof -
  let ?w = "w\<lparr>effects := effects w @ [RanWget url (output_path g @ ''/'' @ poster_name song)]\<rparr>"
  have "0 < length imgs" using assms(2) by simp
  then have rn: "repeats_needed 0 (length imgs) = Inr 0" by (rule repeats_needed_zero)
  have p: "plan_stage g S w = (Inr ([], D), ?w)"
    using plan_stage_run[OF assms(1-6) assms(7) rn] by (simp add: extended_image_list_zero)
  then show ?thesis
    by (simp add: create_music_driven_slideshow_def)
qed

theorem zero_slides_plan_is_empty_witness:
  "slides_needed 0 30 = Inr 0
   \<and> plan_stage example_generator 30 silent_world =
     (Inr ([], 0), silent_world\<lparr>effects := effects silent_world @
         [RanWget ''http://posters/tune.jpg'' (output_path example_generator @ ''/'' @ poster_name (Str ''Tune''))]\<rparr>)
   \<and> render_all example_generator silent_world [] 30 = Inr []
   \<and> create_music_driven_slideshow example_generator 30 10 silent_world =
       assemble example_generator [] 0 30 10 (silent_world\<lparr>effects := effects silent_world @
         [RanWget ''http://posters/tune.jpg'' (output_path example_generator @ ''/'' @ poster_name (Str ''Tune''))]\<rparr>)"
proof -
  have 1: "image_files example_generator (files silent_world) = Inr example_images"
    using example_catalog by (simp add: silent_world_def example_world_def)
  have 5: "wget silent_world ''http://posters/tune.jpg''
             (output_path example_generator @ ''/'' @ poster_name (Str ''Tune'')) = Completed 0"
    by (simp add: silent_world_def example_world_def)
  have 6: "audio silent_world (music_path example_generator) = Some 0"
    by (simp add: silent_world_def)
  have 7: "slides_needed 0 30 = Inr 0" by (rule slides_needed_0) simp
  note th = zero_slides_plan_is_empty[OF 1 example_images_nonempty example_poster example_song_name 5 6 7,
              of silent_world 10]
  show ?thesis
    by (intro conjI 7 th[THEN conjunct1] th[THEN conjunct2, THEN conjunct1]
          th[THEN conjunct2, THEN conjunct2])
qed

text \<open>
  C5 as stated (planning fails when \<open>slides_needed\<close> is 0) does not hold: with an audio file
  of duration 0, planning returns the empty plan.
\<close>

theorem zero_slides_counterexample:
  "fst (plan_stage example_generator 30 silent_world) = Inr ([], 0)"
proof -
  have 1: "image_files example_generator (files silent_world) = Inr example_images"
    using example_catalog by (simp add: silent_world_def example_world_def)
  have 5: "wget silent_world ''http://posters/tune.jpg''
             (output_path example_generator @ ''/'' @ poster_name (Str ''Tune'')) = Completed 0"
    by (simp add: silent_world_def example_world_def)
  have 6: "audio silent_world (music_path example_generator) = Some 0"
    by (simp add: silent_world_def)
  have 7: "slides_needed 0 30 = Inr 0" by (rule slides_needed_0) simp
  have 8: "repeats_needed 0 (length example_images) = Inr 0"
    by (rule repeats_needed_zero) (simp add: example_images_length)
  show ?thesis
    using plan_stage_run[OF 1 example_images_nonempty example_poster example_song_name 5 6 7 8]
    by (simp add: extended_image_list_zero)
qed

text \<open>
  C7, as the program has it. \<open>download_image\<close> never looks at the exit status of \<open>wget\<close>: for
  every status it returns normally and the plan is computed, whenever the arithmetic of the
  plan raises nothing. The run is aborted before planning only when \<open>wget\<close> cannot be started
  at all; then nothing has been run or written.
\<close>

theorem fetch_exit_status_is_ignored:
  assumes "image_files g (files w) = Inr imgs" and "imgs \<noteq> []"
    and "map_of (song_info g) ''Poster Image'' = Some (Str url)"
    and "map_of (song_info g) ''Song'' = Some song"
    and "audio w (music_path g) = Some D"
    and "slides_needed D S = Inr sn" and "repeats_needed sn (length imgs) = Inr rn"
  shows "(wget w url (output_path g @ ''/'' @ poster_name song) = Completed rc \<longrightarrow>
            download_image url (output_path g) (poster_name song) w =
              (Inr (), w\<lparr>effects := effects w @ [RanWget url (output_path g @ ''/'' @ poster_name song)]\<rparr>)
            \<and> (\<exists>plan w'. plan_stage g S w = (Inr (plan, D), w')))
       \<and> (wget w url (output_path g @ ''/'' @ poster_name song) = NotStarted \<longrightarrow>
            plan_stage g S w = (Inl (FileNotFoundError ''wget''), w)
            \<and> create_music_driven_slideshow g S c w = (Inl (FileNotFoundError ''wget''), w))"
proof (intro conjI impI)
  assume a: "wget w url (output_path g @ ''/'' @ poster_name song) = Completed rc"
  then show "download_image url (output_path g) (poster_name song) w =
              (Inr (), w\<lparr>effects := effects w @ [RanWget url (output_path g @ ''/'' @ poster_name song)]\<rparr>)"
    by (simp add: download_image_def)
  show "\<exists>plan w'. plan_stage g S w = (Inr (plan, D), w')"
    using plan_stage_run[OF assms(1-4) a assms(5-7)] by (intro exI)
next
  assume a: "wget w url (output_path g @ ''/'' @ poster_name song) = NotStarted"
  show p: "plan_stage g S w = (Inl (FileNotFoundError ''wget''), w)"
    using assms(1-4) a by (rule plan_stage_not_started)
  show "create_music_driven_slideshow g S c w = (Inl (FileNotFoundError ''wget''), w)"
    by (simp add: create_music_driven_slideshow_def p)
qed

theorem fetch_exit_status_is_ignored_witness:
  "(wget failed_fetch_world ''http://posters/tune.jpg'' (output_path example_generator @ ''/'' @ poster_name (Str ''Tune'')) = Completed 4
     \<and> download_image ''http://posters/tune.jpg'' (output_path example_generator) (poster_name (Str ''Tune'')) failed_fetch_world =
              (Inr (), failed_fetch_world\<lparr>effects := effects failed_fetch_world @
                 [RanWget ''http://posters/tune.jpg'' (output_path example_generator @ ''/'' @ poster_name (Str ''Tune''))]\<rparr>)
     \<and> (\<exists>plan w'. plan_stage example_generator 30 failed_fetch_world = (Inr (plan, 95), w')))
   \<and> (wget no_wget_world ''http://posters/tune.jpg'' (output_path example_generator @ ''/'' @ poster_name (Str ''Tune'')) = NotStarted
     \<and> plan_stage example_generator 30 no_wget_world = (Inl (FileNotFoundError ''wget''), no_wget_world)
     \<and> create_music_driven_slideshow example_generator 30 10 no_wget_world = (Inl (FileNotFoundError ''wget''), no_wget_world))"
proof -
  have f1: "image_files example_generator (files failed_fetch_world) = Inr example_images"
    using example_catalog by (simp add: failed_fetch_world_def example_world_def)
  have f5: "audio failed_fetch_world (music_path example_generator) = Some 95"
    by (simp add: failed_fetch_world_def example_world_def example_generator_def)
  have n1: "image_files example_generator (files no_wget_world) = Inr example_images"
    using example_catalog by (simp add: no_wget_world_def example_world_def)
  have n5: "audio no_wget_world (music_path example_generator) = Some 95"
    by (simp add: no_wget_world_def example_world_def example_generator_def)
  have r: "repeats_needed 4 (length example_images) = Inr 1"
    by (simp only: example_images_length repeats_needed_4_4)
  have fw: "wget failed_fetch_world ''http://posters/tune.jpg'' (output_path example_generator @ ''/'' @ poster_name (Str ''Tune'')) = Completed 4"
    by (simp add: failed_fetch_world_def)
  have nw: "wget no_wget_world ''http://posters/tune.jpg'' (output_path example_generator @ ''/'' @ poster_name (Str ''Tune'')) = NotStarted"
    by (simp add: no_wget_world_def)
  note a = fetch_exit_status_is_ignored[OF f1 example_images_nonempty example_poster example_song_name f5
             slides_needed_95_30 r, THEN conjunct1, rule_format, OF fw]
  note b = fetch_exit_status_is_ignored[OF n1 example_images_nonempty example_poster example_song_name n5
             slides_needed_95_30 r, THEN conjunct2, rule_format, OF nw]
  show ?thesis
    by (intro conjI fw nw a[THEN conjunct1] a[THEN conjunct2] b[THEN conjunct1] b[THEN conjunct2])
qed

text \<open>
  C7 as stated (a failed fetch aborts the run before planning) does not hold: with \<open>wget\<close>
  ending in status 4, a network failure, the plan is computed all the same.
\<close>

theorem failed_fetch_counterexample:
  "wget failed_fetch_world ''http://posters/tune.jpg'' ''/out/Tune Poster.jpg'' = Completed 4
   \<and> fst (plan_stage example_generator 30 failed_fetch_world) =
       Inr ([''/out/Tune Poster.jpg'', ''/img/asha.2.jpeg'', ''/img/kishore.b.gif'', ''/img/kishore.a.PNG''], 95)"
proof
  show "wget failed_fetch_world ''http://posters/tune.jpg'' ''/out/Tune Poster.jpg'' = Completed 4"
    by (simp add: failed_fetch_world_def)
  have "plan_stage example_generator 30 failed_fetch_world =
     (Inr ([''/out/Tune Poster.jpg'', ''/img/asha.2.jpeg'', ''/img/kishore.b.gif'', ''/img/kishore.a.PNG''], 95),
      failed_fetch_world\<lparr>effects := effects failed_fetch_world @
           [RanWget ''http://posters/tune.jpg'' (output_path example_generator @ ''/'' @ poster_name (Str ''Tune''))],
         random_source := snd (extended_image_list (join (output_path example_generator) (poster_name (Str ''Tune'')))
                                 example_images 4 1 (random_source failed_fetch_world))\<rparr>)"
    by (rule example_plan_stage[of _ 4]) (simp_all add: failed_fetch_world_def example_world_def)
  then show "fst (plan_stage example_generator 30 failed_fetch_world) =
       Inr ([''/out/Tune Poster.jpg'', ''/img/asha.2.jpeg'', ''/img/kishore.b.gif'', ''/img/kishore.a.PNG''], 95)"
    by (simp only: fst_conv)
qed

text \<open>
  C9. Constructing the generator with \<open>song_info = None\<close> always raises, since
  \<open>song_info['Song']\<close> is subscripted before the fallback is assigned. Every construction that
  succeeds was given a mapping with the key \<open>Song\<close>, and the generator holds that mapping, so the
  fallback metadata is never used.
\<close>

theorem init_without_song_info_raises:
  "init fs idir mpath opath None = Inl TypeError
   \<and> (init fs idir mpath opath si = Inr g \<longrightarrow>
        (\<exists>d s. si = Some d \<and> map_of d ''Song'' = Some (Str s) \<and> song_info g = d))"
  using init_Inr by (simp add: init_def song_plus_def)

theorem init_without_song_info_raises_witness:
  "init example_files ''/img'' ''/song.mp3'' ''/out'' None = Inl TypeError
   \<and> init example_files ''/img'' ''/song.mp3'' ''/out'' (Some example_song) = Inr example_generator
   \<and> (\<exists>d s. Some example_song = Some d \<and> map_of d ''Song'' = Some (Str s)
          \<and> song_info example_generator = d)"
proof -
  note th = init_without_song_info_raises[of example_files "''/img''" "''/song.mp3''" "''/out''"
              "Some example_song" example_generator]
  show ?thesis
    by (intro conjI th[THEN conjunct1] example_init th[THEN conjunct2, rule_format, OF example_init])
qed

text \<open>
  C6. Given a directory and a list of singer-image keys, the catalog is exactly the files of the
  directory (joined to its path, in listing order) whose lower-cased name ends in a dot and one
  of jpg, jpeg, png, bmp, gif and whose name begins with one of the keys followed by a dot. An
  empty catalog makes the method raise \<open>ValueError\<close> with the world as it was (nothing run,
  nothing written), and a directory that does not exist makes the constructor raise
  \<open>ValueError\<close>.
\<close>

theorem catalog_filter:
  assumes "files w (images_dir g) = Some (Dir names)"
    and "map_of (song_info g) ''Singers Images'' = Some (StrList keys)"
  shows "\<exists>imgs. image_files g (files w) = Inr imgs
           \<and> imgs = map (join (images_dir g)) (filter (\<lambda>f. is_image_name f \<and> singer_match keys f) names)
           \<and> set imgs = join (images_dir g) `
                 {f \<in> set names.
                    (\<exists>ext \<in> {''jpg'', ''jpeg'', ''png'', ''bmp'', ''gif''}. \<exists>stem. lower f = stem @ ''.'' @ ext)
                    \<and> (\<exists>k \<in> set keys. \<exists>rest. f = k @ ''.'' @ rest)}
           \<and> (imgs = [] \<longrightarrow>
                 create_music_driven_slideshow g S c w =
                   (Inl (ValueError ''No image files found in the specified directory''), w))
           \<and> (\<not> path_exists fs idir \<longrightarrow> map_of d ''Song'' = Some (Str s) \<longrightarrow>
                 init fs idir mpath opath (Some d) =
                   Inl (ValueError (''Image directory '' @ idir @ '' does not exist'')))"
proof -
  let ?imgs = "map (join (images_dir g)) (filter (\<lambda>f. is_image_name f \<and> singer_match keys f) names)"
  have 1: "image_files g (files w) = Inr ?imgs"
    using assms by (rule image_files_Dir)
  have 2: "set ?imgs = join (images_dir g) `
                 {f \<in> set names.
                    (\<exists>ext \<in> {''jpg'', ''jpeg'', ''png'', ''bmp'', ''gif''}. \<exists>stem. lower f = stem @ ''.'' @ ext)
                    \<and> (\<exists>k \<in> set keys. \<exists>rest. f = k @ ''.'' @ rest)}"
    by (simp only: set_map set_filter is_image_name_iff singer_match_iff)
  have 3: "?imgs = [] \<longrightarrow>
                 create_music_driven_slideshow g S c w =
                   (Inl (ValueError ''No image files found in the specified directory''), w)"
    using 1 slideshow_empty by simp
  have 4: "\<not> path_exists fs idir \<longrightarrow> map_of d ''Song'' = Some (Str s) \<longrightarrow>
                 init fs idir mpath opath (Some d) =
                   Inl (ValueError (''Image directory '' @ idir @ '' does not exist''))"
    using init_missing_dir by blast
  show ?thesis
    using 1 2 3 4 by blast
qed

theorem catalog_filter_witness:
  "image_files example_generator (files example_world) = Inr example_images
   \<and> create_music_driven_slideshow example_generator 30 10 other_singers_world =
        (Inl (ValueError ''No image files found in the specified directory''), other_singers_world)
   \<and> init example_files ''/nowhere'' ''/song.mp3'' ''/out'' (Some example_song) =
        Inl (ValueError (''Image directory '' @ ''/nowhere'' @ '' does not exist''))"
proof -
  have k: "map_of (song_info example_generator) ''Singers Images'' = Some (StrList [''asha'', ''kishore''])"
    by code_simp
  have fa: "files example_world (images_dir example_generator) =
      Some (Dir [''asha.1.jpg'', ''kishore.a.PNG'', ''lata.1.jpg'', ''asha.txt'', ''asha.2.jpeg'', ''kishore.b.gif''])"
    by (simp add: example_world_def example_generator_def example_files_def)
  have fb: "files other_singers_world (images_dir example_generator) =
      Some (Dir [''lata.1.jpg'', ''asha.txt'', ''asha2.jpg''])"
    by (simp add: other_singers_world_def example_generator_def other_singers_files_def)
  have ea: "map (join (images_dir example_generator))
              (filter (\<lambda>f. is_image_name f \<and> singer_match [''asha'', ''kishore''] f)
                 [''asha.1.jpg'', ''kishore.a.PNG'', ''lata.1.jpg'', ''asha.txt'', ''asha.2.jpeg'', ''kishore.b.gif''])
            = example_images"
    by code_simp
  have eb: "map (join (images_dir example_generator))
              (filter (\<lambda>f. is_image_name f \<and> singer_match [''asha'', ''kishore''] f)
                 [''lata.1.jpg'', ''asha.txt'', ''asha2.jpg''])
            = []"
    by code_simp
  have nd: "\<not> path_exists example_files ''/nowhere''"
    by (simp add: path_exists_def example_files_def)
  have sg: "map_of example_song ''Song'' = Some (Str ''Tune'')"
    by code_simp
  from catalog_filter[OF fa k, of 30 10 example_files "''/nowhere''" example_song "''Tune''" "''/song.mp3''" "''/out''"]
  obtain imgs where a: "image_files example_generator (files example_world) = Inr imgs"
    and a': "imgs = map (join (images_dir example_generator))
              (filter (\<lambda>f. is_image_name f \<and> singer_match [''asha'', ''kishore''] f)
                 [''asha.1.jpg'', ''kishore.a.PNG'', ''lata.1.jpg'', ''asha.txt'', ''asha.2.jpeg'', ''kishore.b.gif''])"
    and c: "\<not> path_exists example_files ''/nowhere'' \<longrightarrow> map_of example_song ''Song'' = Some (Str ''Tune'') \<longrightarrow>
                 init example_files ''/nowhere'' ''/song.mp3'' ''/out'' (Some example_song) =
                   Inl (ValueError (''Image directory '' @ ''/nowhere'' @ '' does not exist''))"
    by (elim exE conjE)
  from catalog_filter[OF fb k, of 30 10 example_files "''/nowhere''" example_song "''Tune''" "''/song.mp3''" "''/out''"]
  obtain imgs2 where b': "imgs2 = map (join (images_dir example_generator))
              (filter (\<lambda>f. is_image_name f \<and> singer_match [''asha'', ''kishore''] f)
                 [''lata.1.jpg'', ''asha.txt'', ''asha2.jpg''])"
    and b: "imgs2 = [] \<longrightarrow>
                 create_music_driven_slideshow example_generator 30 10 other_singers_world =
                   (Inl (ValueError ''No image files found in the specified directory''), other_singers_world)"
    by (elim exE conjE)
  have 1: "image_files example_generator (files example_world) = Inr example_images"
    using a a' ea by (simp only:)
  have 2: "create_music_driven_slideshow example_generator 30 10 other_singers_world =
        (Inl (ValueError ''No image files found in the specified directory''), other_singers_world)"
    by (rule b[rule_format]) (simp only: b' eb)
  have 3: "init example_files ''/nowhere'' ''/song.mp3'' ''/out'' (Some example_song) =
        Inl (ValueError (''Image directory '' @ ''/nowhere'' @ '' does not exist''))"
    by (rule c[rule_format, OF nd sg])
  show ?thesis by (intro conjI 1 2 3)
qed

text \<open>
  C3, as the program has it. For every row offset \<open>y\<close> below \<open>footer_height = 120\<close> the alpha
  of the footer overlay is \<open>(y / footer_height) ** 1.5 * 160\<close> truncated to an integer (not
  rounded); it lies between 0 and 158, so it is stored as it is, in every column of row \<open>y\<close> of
  the overlay. It does not decrease with \<open>y\<close>, is 0 in row 0 and reaches its largest value, 158,
  in the last row, so the overlay is never fully opaque.
\<close>

theorem footer_alpha:
  assumes "footer_height g = 120"
  shows "\<exists>footer. footer_overlay g = Inr footer
           \<and> (\<forall>y<120. \<forall>x<width g. im_data footer x y = (0, 0, 0, nat (alpha g y)))
           \<and> (\<forall>y<120. alpha g y = \<lfloor>(real y / 120) powr 1.5 * 160\<rfloor>
                  \<and> 0 \<le> alpha g y \<and> alpha g y \<le> 158)
           \<and> (\<forall>y y'. y \<le> y' \<longrightarrow> alpha g y \<le> alpha g y')
           \<and> alpha g 0 = 0 \<and> alpha g 119 = 158"
proof -
  obtain footer where f: "footer_overlay g = Inr footer"
    and d: "\<forall>x y. im_data footer x y =
            (if x < width g \<and> y < footer_height g then (0, 0, 0, clip8 (alpha g y)) else (0, 0, 0, 0))"
    using footer_overlay_ok by blast
  have 1: "\<forall>y<120. \<forall>x<width g. im_data footer x y = (0, 0, 0, nat (alpha g y))"
    using d assms clip8_alpha[OF assms] by simp
  have 2: "\<forall>y<120. alpha g y = \<lfloor>(real y / 120) powr 1.5 * 160\<rfloor>
                  \<and> 0 \<le> alpha g y \<and> alpha g y \<le> 158"
    using alpha_range[OF assms] alpha_floor[of g] assms by simp
  have 3: "\<forall>y y'. y \<le> y' \<longrightarrow> alpha g y \<le> alpha g y'"
    using alpha_mono by blast
  show ?thesis
    using f 1 2 3 alpha_0 alpha_119[OF assms] by blast
qed

theorem footer_alpha_witness:
  "footer_height example_generator = 120
   \<and> (\<exists>footer. footer_overlay example_generator = Inr footer
         \<and> im_data footer 7 60 = (0, 0, 0, 56))
   \<and> alpha example_generator 60 = \<lfloor>(real 60 / 120) powr 1.5 * 160\<rfloor>
   \<and> alpha example_generator 30 \<le> alpha example_generator 60
   \<and> alpha example_generator 0 = 0 \<and> alpha example_generator 119 = 158"
proof -
  from footer_alpha[OF example_footer_height]
  obtain footer where f: "footer_overlay example_generator = Inr footer"
    and 1: "\<forall>y<120. \<forall>x<width example_generator. im_data footer x y = (0, 0, 0, nat (alpha example_generator y))"
    and 2: "\<forall>y<120. alpha example_generator y = \<lfloor>(real y / 120) powr 1.5 * 160\<rfloor>
                  \<and> 0 \<le> alpha example_generator y \<and> alpha example_generator y \<le> 158"
    and 3: "\<forall>y y'. y \<le> y' \<longrightarrow> alpha example_generator y \<le> alpha example_generator y'"
    and 4: "alpha example_generator 0 = 0" and 5: "alpha example_generator 119 = 158"
    by (elim exE conjE)
  have w: "7 < width example_generator" by (simp add: example_generator_def)
  have "im_data footer 7 60 = (0, 0, 0, nat (alpha example_generator 60))"
    using 1 w by simp
  then have a: "im_data footer 7 60 = (0, 0, 0, 56)"
    using alpha_60[OF example_footer_height] by simp
  have b: "alpha example_generator 60 = \<lfloor>(real 60 / 120) powr 1.5 * 160\<rfloor>"
    using 2 by simp
  have c: "alpha example_generator 30 \<le> alpha example_generator 60"
    using 3 by simp
  show ?thesis
    using example_footer_height f a b c 4 5 by blast
qed

text \<open>
  C3 as stated (the alpha is the rounded value) does not hold: in row 60 the value is
  56.57, the program stores 56 and rounding gives 57.
\<close>

theorem footer_alpha_is_truncated_counterexample:
  "alpha example_generator 60 \<noteq>
     min 255 (max 0 (round ((real 60 / real (footer_height example_generator)) powr 1.5 * 160)))"
  using alpha_60[OF example_footer_height] round_60[OF example_footer_height] by simp

text \<open>
  C10. Pasting the footer changes no pixel above the bottom \<open>footer_height\<close> rows: every pixel
  in a row below \<open>height - footer_height\<close> is the same before and after, the size of the canvas
  stays, and no channel of any pixel gets lighter. The canvas of a rendered slide is such a
  paste over the canvas that holds the resized image.
\<close>

theorem footer_changes_only_footer_rows:
  "(int y < int (height g) - int (footer_height g) \<longrightarrow>
       im_data (paste_footer g background footer) x y = im_data background x y)
   \<and> im_width (paste_footer g background footer) = im_width background
   \<and> im_height (paste_footer g background footer) = im_height background
   \<and> (case im_data (paste_footer g background footer) x y of (r, gr, b) \<Rightarrow>
        case im_data background x y of (r0, g0, b0) \<Rightarrow> r \<le> r0 \<and> gr \<le> g0 \<and> b \<le> b0)
   \<and> (slide_canvas g wd img = Inr canvas \<longrightarrow>
        (\<exists>before footer'. footer_overlay g = Inr footer' \<and> canvas = paste_footer g before footer'
           \<and> (int y < int (height g) - int (footer_height g) \<longrightarrow>
                 im_data canvas x y = im_data before x y)))"
proof -
  have "slide_canvas g wd img = Inr canvas \<longrightarrow>
        (\<exists>before footer'. footer_overlay g = Inr footer' \<and> canvas = paste_footer g before footer'
           \<and> (int y < int (height g) - int (footer_height g) \<longrightarrow>
                 im_data canvas x y = im_data before x y))"
  proof
    assume "slide_canvas g wd img = Inr canvas"
    then obtain sz img_resized footer' where
      "footer_overlay g = Inr footer'"
      "canvas = paste_footer g
                (paste (new_image (width g) (height g) (0, 0, 0)) img_resized (paste_position g sz)) footer'"
      using slide_canvas_Inr by blast
    then show "\<exists>before footer'. footer_overlay g = Inr footer' \<and> canvas = paste_footer g before footer'
           \<and> (int y < int (height g) - int (footer_height g) \<longrightarrow>
                 im_data canvas x y = im_data before x y)"
      using paste_footer_above by blast
  qed
  note last = this
  show ?thesis
    by (intro conjI last) (intro impI paste_footer_above paste_footer_size paste_footer_darkens; assumption?)+
qed

theorem footer_changes_only_footer_rows_witness:
  "int 100 < int (height example_generator) - int (footer_height example_generator)
   \<and> im_data (paste_footer example_generator (new_image 1920 1080 (9, 9, 9)) (new_image 1920 120 (0, 0, 0, 77))) 5 100
       = im_data (new_image 1920 1080 (9, 9, 9) :: rgb image) 5 100
   \<and> (\<exists>canvas before footer'. slide_canvas example_generator example_world sample_image = Inr canvas
         \<and> footer_overlay example_generator = Inr footer' \<and> canvas = paste_footer example_generator before footer'
         \<and> im_data canvas 5 100 = im_data before 5 100)"
proof -
  have h: "int 100 < int (height example_generator) - int (footer_height example_generator)"
    by (simp add: example_generator_def)
  obtain canvas where c: "slide_canvas example_generator example_world sample_image = Inr canvas"
    using sample_canvas by blast
  note th = footer_changes_only_footer_rows[of 100 example_generator "new_image 1920 1080 (9, 9, 9)"
      "new_image 1920 120 (0, 0, 0, 77)" 5 example_world sample_image canvas]
  have a: "im_data (paste_footer example_generator (new_image 1920 1080 (9, 9, 9)) (new_image 1920 120 (0, 0, 0, 77))) 5 100
       = im_data (new_image 1920 1080 (9, 9, 9) :: rgb image) 5 100"
    by (rule th[THEN conjunct1, rule_format, OF h])
  from th[THEN conjunct2, THEN conjunct2, THEN conjunct2, THEN conjunct2, rule_format, OF c]
  obtain before footer' where b: "footer_overlay example_generator = Inr footer'"
    "canvas = paste_footer example_generator before footer'"
    "int 100 < int (height example_generator) - int (footer_height example_generator) \<longrightarrow>
                 im_data canvas 5 100 = im_data before 5 100"
    by (elim exE conjE)
  have "slide_canvas example_generator example_world sample_image = Inr canvas
         \<and> footer_overlay example_generator = Inr footer' \<and> canvas = paste_footer example_generator before footer'
         \<and> im_data canvas 5 100 = im_data before 5 100"
    by (intro conjI c b(1) b(2) b(3)[rule_format, OF h])
  then have "\<exists>canvas before footer'. slide_canvas example_generator example_world sample_image = Inr canvas
         \<and> footer_overlay example_generator = Inr footer' \<and> canvas = paste_footer example_generator before footer'
         \<and> im_data canvas 5 100 = im_data before 5 100"
    by (intro exI)
  then show ?thesis using h a by (intro conjI)
qed

text \<open>
  C4 at an image of 4000 by 1 pixels: the resize height is \<open>int(1920 / 4000.0) = 0\<close>, the resize
  is rejected and no canvas is produced.
\<close>

theorem thin_image_is_rejected:
  "resize_dimensions example_generator (im_width thin_image) (im_height thin_image) = Inr (1920, 0)
   \<and> slide_canvas example_generator example_world thin_image =
       Inl (ValueError ''height and width must be > 0'')"
  using thin_image_dimensions
  by (simp add: slide_canvas_def resize_def thin_image_def new_image_def)

end
